theory Spec2Isabelle
  imports Complex_Main
begin

section \<open>Python strings\<close>

text \<open>
  A Python \<open>str\<close> is modelled as a \<open>string\<close>: one \<open>char\<close> per code point, for the code
  points below 256. \<open>length\<close> is Python's \<open>len\<close>.
\<close>

definition NL :: string where
  "NL = [CHR 0x0A]"

definition DQ :: string where
  "DQ = [CHR 0x22]"

text \<open>\<open>str.isspace\<close> on one character (the code points below 256 that Python counts as
  whitespace: TAB, LF, VT, FF, CR, FS, GS, RS, US, SPACE, NEL, NBSP).\<close>

definition is_space :: "char \<Rightarrow> bool" where
  "is_space c = (c \<in> {CHR 0x09, CHR 0x0A, CHR 0x0B, CHR 0x0C, CHR 0x0D,
                       CHR 0x1C, CHR 0x1D, CHR 0x1E, CHR 0x1F, CHR 0x20,
                       CHR 0x85, CHR 0xA0})"

text \<open>\<open>s.strip()\<close>: drop leading and trailing whitespace.\<close>

definition strip :: "string \<Rightarrow> string" where
  "strip s = rev (dropWhile is_space (rev (dropWhile is_space s)))"

text \<open>\<open>sep.join(xs)\<close>.\<close>

fun join :: "string \<Rightarrow> string list \<Rightarrow> string" where
  "join sep [] = []"
| "join sep [x] = x"
| "join sep (x # y # ys) = x @ sep @ join sep (y # ys)"

text \<open>\<open>sub in s\<close>: \<open>sub\<close> occurs in \<open>s\<close> as a contiguous substring.\<close>

fun starts_with :: "string \<Rightarrow> string \<Rightarrow> bool" where
  "starts_with [] s = True"
| "starts_with (p # ps) [] = False"
| "starts_with (p # ps) (c # cs) = (p = c \<and> starts_with ps cs)"

fun contains :: "string \<Rightarrow> string \<Rightarrow> bool" where
  "contains sub [] = starts_with sub []"
| "contains sub (c # cs) = (starts_with sub (c # cs) \<or> contains sub cs)"

text \<open>\<open>s[:k]\<close> for a Python integer \<open>k\<close>: a negative \<open>k\<close> counts from the end.\<close>

definition slice_to :: "string \<Rightarrow> int \<Rightarrow> string" where
  "slice_to s k = (if k < 0 then take (nat (int (length s) + k)) s else take (nat k) s)"

text \<open>\<open>s.rfind(c)\<close> for a single character: the highest index of \<open>c\<close>, or \<open>-1\<close>.\<close>

fun rfind :: "string \<Rightarrow> char \<Rightarrow> int" where
  "rfind [] c = -1"
| "rfind (x # xs) c =
     (let r = rfind xs c in if r \<ge> 0 then r + 1 else if x = c then 0 else -1)"

text \<open>\<open>s.rsplit(' ', 1)[0]\<close>: the part before the last space, or all of \<open>s\<close> when it has
  no space.\<close>

definition rsplit1_head :: "string \<Rightarrow> string" where
  "rsplit1_head s = (let r = rfind s CHR '' '' in if r \<ge> 0 then take (nat r) s else s)"

section \<open>Prompt constructor (answer\_generation/prompt\_constructor.py)\<close>

text \<open>The exceptions the modelled code raises or catches; all derive from Python's
  \<open>Exception\<close>. \<open>Timeout\<close>, \<open>ConnectionError\<close> and \<open>RequestException\<close> are those of
  \<open>requests.exceptions\<close>; \<open>OtherException\<close> stands for any further one (\<open>KeyError\<close>,
  \<open>TypeError\<close>, ...).\<close>

datatype error =
    ValueError string
  | Exception string
  | Timeout
  | ConnectionError
  | RequestException
  | OtherException string

definition grounding_instructions :: string where
  "grounding_instructions =
     ''Instructions: Answer the question using ONLY the provided context. '' @
     ''Do not use any prior knowledge or information not present in the context. '' @
     ''If the context does not contain sufficient information to answer the question, '' @
     ''respond with '' @ DQ @
     ''I cannot answer this question based on the provided context.'' @ DQ @
     '' Ensure your answer is directly supported by the information in the context '' @
     ''section above.''"

definition no_context_instructions :: string where
  "no_context_instructions =
     ''Instructions: The context needed to answer this question is not available. '' @
     ''Respond with '' @ DQ @
     ''I cannot answer this question based on the provided context.'' @ DQ @
     '' Do not attempt to answer using any prior knowledge.''"

definition create_prompt_without_context :: "string \<Rightarrow> string" where
  "create_prompt_without_context query =
     ''Question: '' @ query @ NL @ NL @ no_context_instructions"

text \<open>The f-string that both constructors return when there is context.\<close>

definition prompt_with_context :: "string \<Rightarrow> string \<Rightarrow> string" where
  "prompt_with_context context_text query =
     ''Context:'' @ NL @ context_text @ NL @ NL @
     ''Question: '' @ query @ NL @ NL @ grounding_instructions"

text \<open>\<open>not query or len(query.strip()) == 0\<close>, and \<open>chunk and chunk.strip()\<close> negated.\<close>

definition blank :: "string \<Rightarrow> bool" where
  "blank s = (s = [] \<or> strip s = [])"

text \<open>The truncation block of \<open>construct_prompt\<close>. \<open>max_context_length\<close> is
  \<open>Optional[int]\<close>; \<open>None\<close> and \<open>0\<close> are falsy.\<close>

definition truncate_context :: "string \<Rightarrow> int option \<Rightarrow> string" where
  "truncate_context context_text max_context_length =
     (case max_context_length of
        None \<Rightarrow> context_text
      | Some m \<Rightarrow>
          if m \<noteq> 0 \<and> int (length context_text) > m then
            (let context_text' = slice_to context_text m in
             if m < int (length context_text') then
               (let last_space = rfind context_text' CHR '' '' in
                if last_space > 0 then slice_to context_text' last_space
                else context_text')
             else context_text')
          else context_text)"

definition construct_prompt :: "string \<Rightarrow> string list \<Rightarrow> int option \<Rightarrow> error + string" where
  "construct_prompt query context_chunks max_context_length =
     (if blank query then Inl (ValueError ''Query cannot be empty'')
      else if context_chunks = [] then Inr (create_prompt_without_context query)
      else
        (let filtered_context = filter (\<lambda>chunk. \<not> blank chunk) context_chunks in
         if filtered_context = [] then Inr (create_prompt_without_context query)
         else
           (let context_text = join NL filtered_context;
                context_text' = truncate_context context_text max_context_length
            in Inr (prompt_with_context context_text' query))))"

definition validate_prompt_format :: "string \<Rightarrow> bool" where
  "validate_prompt_format prompt =
     (if prompt = [] \<or> length (strip prompt) = 0 then False
      else
        (let has_context = contains ''Context:'' prompt;
             has_question = contains ''Question:'' prompt;
             has_instructions = contains ''Instructions:'' prompt
         in has_context \<and> has_question \<and> has_instructions))"

text \<open>The selection loop of \<open>construct_prompt_with_length_management\<close>: the remaining
  chunks, \<open>selected_context\<close> and \<open>current_length\<close> are the loop state; \<open>break\<close> returns
  the selection at once.\<close>

fun select_context :: "int \<Rightarrow> string list \<Rightarrow> string list \<Rightarrow> int \<Rightarrow> string list" where
  "select_context remaining_length [] selected_context current_length = selected_context"
| "select_context remaining_length (chunk # rest) selected_context current_length =
     (if blank chunk then
        select_context remaining_length rest selected_context current_length
      else
        (let chunk_length = int (length chunk) + 1 in
         if current_length + chunk_length \<le> remaining_length then
           select_context remaining_length rest (selected_context @ [chunk])
             (current_length + chunk_length)
         else
           (let remaining_space = remaining_length - current_length in
            if remaining_space > 100 then
              selected_context @ [rsplit1_head (slice_to chunk remaining_space)]
            else
              select_context remaining_length rest selected_context current_length)))"

definition base_prompt :: "string \<Rightarrow> string" where
  "base_prompt query =
     ''Question: '' @ query @ NL @ NL @ grounding_instructions @ NL @ NL @ ''Context:'' @ NL"

definition remaining_length_of :: "string \<Rightarrow> int \<Rightarrow> int" where
  "remaining_length_of query max_total_length =
     max_total_length - int (length (base_prompt query)) - 500"

definition construct_prompt_with_length_management ::
  "string \<Rightarrow> string list \<Rightarrow> int \<Rightarrow> error + string" where
  "construct_prompt_with_length_management query context_chunks max_total_length =
     (if blank query then Inl (ValueError ''Query cannot be empty'')
      else if context_chunks = [] then Inr (create_prompt_without_context query)
      else
        (let remaining_length = remaining_length_of query max_total_length in
         if remaining_length \<le> 0 then Inr (create_prompt_without_context query)
         else
           (let selected_context = select_context remaining_length context_chunks [] 0 in
            if selected_context = [] then Inr (create_prompt_without_context query)
            else Inr (prompt_with_context (join NL selected_context) query))))"

text \<open>The budget that the non-blank chunks of a list take when all are added whole: each
  costs its length plus one for the newline.\<close>

definition context_cost :: "string list \<Rightarrow> int" where
  "context_cost chunks = (\<Sum>chunk\<leftarrow>filter (\<lambda>chunk. \<not> blank chunk) chunks. int (length chunk) + 1)"

section \<open>Text processor (ingestion/text\_processor.py)\<close>

text \<open>\<open>str(n)\<close> for a non-negative and for any integer.\<close>

definition digit_char :: "nat \<Rightarrow> char" where
  "digit_char d = char_of (of_char CHR ''0'' + d)"

fun str_nat :: "nat \<Rightarrow> string" where
  "str_nat n = (if n < 10 then [digit_char n] else str_nat (n div 10) @ [digit_char (n mod 10)])"

definition str_int :: "int \<Rightarrow> string" where
  "str_int i = (if i < 0 then ''-'' @ str_nat (nat (- i)) else str_nat (nat i))"

text \<open>The sentence terminators of the pattern \<open>[.!?]+\<close>.\<close>

definition is_ending :: "char \<Rightarrow> bool" where
  "is_ending c = (c \<in> {CHR ''.'', CHR ''!'', CHR ''?''})"

text \<open>\<open>re.split(r'[.!?]+', text)\<close>: the pieces between the maximal runs of terminators,
  empty pieces included.\<close>

function re_split_endings :: "string \<Rightarrow> string list" where
  "re_split_endings s =
     (let piece = takeWhile (\<lambda>c. \<not> is_ending c) s;
          rest = dropWhile (\<lambda>c. \<not> is_ending c) s
      in if rest = [] then [piece]
         else piece # re_split_endings (dropWhile is_ending rest))"
  by pat_completeness auto
termination
proof (relation "measure length")
  fix s piece rest
  assume "rest = dropWhile (\<lambda>c. \<not> is_ending c) s" and "rest \<noteq> []"
  then obtain c cs where r: "rest = c # cs" and "is_ending c"
    by (metis hd_dropWhile list.exhaust_sel)
  then have "length (dropWhile is_ending rest) \<le> length cs"
    by (simp add: length_dropWhile_le)
  moreover have "length rest \<le> length s"
    using \<open>rest = dropWhile (\<lambda>c. \<not> is_ending c) s\<close> by (simp add: length_dropWhile_le)
  ultimately show "(dropWhile is_ending rest, s) \<in> measure length"
    using r by simp
qed simp

text \<open>\<open>re.findall(r'[.!?]+', text)\<close>: the maximal runs of terminators, in order.\<close>

function re_findall_endings :: "string \<Rightarrow> string list" where
  "re_findall_endings s =
     (let rest = dropWhile (\<lambda>c. \<not> is_ending c) s
      in if rest = [] then []
         else takeWhile is_ending rest # re_findall_endings (dropWhile is_ending rest))"
  by pat_completeness auto
termination
proof (relation "measure length")
  fix s rest
  assume "rest = dropWhile (\<lambda>c. \<not> is_ending c) s" and "rest \<noteq> []"
  then obtain c cs where r: "rest = c # cs" and "is_ending c"
    by (metis hd_dropWhile list.exhaust_sel)
  then have "length (dropWhile is_ending rest) \<le> length cs"
    by (simp add: length_dropWhile_le)
  moreover have "length rest \<le> length s"
    using \<open>rest = dropWhile (\<lambda>c. \<not> is_ending c) s\<close> by (simp add: length_dropWhile_le)
  ultimately show "(dropWhile is_ending rest, s) \<in> measure length"
    using r by simp
qed simp

text \<open>\<open>s.split()\<close>: the maximal runs of non-whitespace characters.\<close>

function split_ws :: "string \<Rightarrow> string list" where
  "split_ws s =
     (let rest = dropWhile is_space s
      in if rest = [] then []
         else takeWhile (\<lambda>c. \<not> is_space c) rest #
              split_ws (dropWhile (\<lambda>c. \<not> is_space c) rest))"
  by pat_completeness auto
termination
proof (relation "measure length")
  fix s rest
  assume "rest = dropWhile is_space s" and "rest \<noteq> []"
  then obtain c cs where r: "rest = c # cs" and "\<not> is_space c"
    by (metis hd_dropWhile list.exhaust_sel)
  then have "length (dropWhile (\<lambda>c. \<not> is_space c) rest) \<le> length cs"
    by (simp add: length_dropWhile_le)
  moreover have "length rest \<le> length s"
    using \<open>rest = dropWhile is_space s\<close> by (simp add: length_dropWhile_le)
  ultimately show "(dropWhile (\<lambda>c. \<not> is_space c) rest, s) \<in> measure length"
    using r by simp
qed simp

record ContentChunk =
  id' :: string
  text' :: string
  source_url :: string
  position :: nat
  char_count :: nat

text \<open>The chunk that \<open>chunk_text\<close> builds at a position. Python's \<open>hash\<close> of a string is
  fixed within one process only, so it is a parameter.\<close>

definition make_chunk :: "(string \<Rightarrow> int) \<Rightarrow> string \<Rightarrow> nat \<Rightarrow> string \<Rightarrow> nat \<Rightarrow> ContentChunk" where
  "make_chunk hash url pos txt cnt =
     \<lparr> id' = str_int (abs (hash (url @ ''_'' @ str_nat pos))),
       text' = txt, source_url = url, position = pos, char_count = cnt \<rparr>"

text \<open>\<open>[word[i:i + n] for i in range(0, len(word), n)]\<close> for a positive step \<open>n\<close>.\<close>

function word_slices :: "nat \<Rightarrow> string \<Rightarrow> string list" where
  "word_slices n word =
     (if n = 0 \<or> word = [] then [] else take n word # word_slices n (drop n word))"
  by pat_completeness auto
termination
  by (relation "measure (\<lambda>(n, word). length word)") auto

text \<open>The hard split of one long word: \<open>range\<close> raises on a zero step and is empty on a
  negative one.\<close>

definition split_long_word :: "string \<Rightarrow> int \<Rightarrow> error + string list" where
  "split_long_word word max_chunk_size =
     (if max_chunk_size = 0 then Inl (ValueError ''range() arg 3 must not be zero'')
      else if max_chunk_size < 0 then Inr []
      else Inr (word_slices (nat max_chunk_size) word))"

text \<open>The word loop of \<open>_split_long_sentence\<close>, with \<open>chunks\<close> and \<open>current_chunk\<close> as
  the loop state, and the final flush of \<open>current_chunk\<close>.\<close>

fun split_words :: "int \<Rightarrow> string list \<Rightarrow> string list \<Rightarrow> string \<Rightarrow> error + string list" where
  "split_words max_chunk_size [] chunks current_chunk =
     Inr (if current_chunk \<noteq> [] then chunks @ [current_chunk] else chunks)"
| "split_words max_chunk_size (word # rest) chunks current_chunk =
     (if int (length current_chunk) + int (length word) + 1 \<le> max_chunk_size then
        (if current_chunk \<noteq> [] then
           split_words max_chunk_size rest chunks (current_chunk @ '' '' @ word)
         else split_words max_chunk_size rest chunks word)
      else if current_chunk \<noteq> [] then
        split_words max_chunk_size rest (chunks @ [current_chunk]) word
      else if int (length word) > max_chunk_size then
        (case split_long_word word max_chunk_size of
           Inl e \<Rightarrow> Inl e
         | Inr pieces \<Rightarrow> split_words max_chunk_size rest (chunks @ pieces) current_chunk)
      else split_words max_chunk_size rest chunks word)"

definition split_long_sentence :: "string \<Rightarrow> int \<Rightarrow> error + string list" where
  "split_long_sentence sentence max_chunk_size =
     (if int (length sentence) \<le> max_chunk_size then Inr [sentence]
      else split_words max_chunk_size (split_ws sentence) [] [])"

text \<open>Appending the sub-chunks of a long sentence, each at the next position.\<close>

fun append_sub_chunks ::
  "(string \<Rightarrow> int) \<Rightarrow> string \<Rightarrow> string list \<Rightarrow> ContentChunk list \<Rightarrow> nat \<Rightarrow> ContentChunk list \<times> nat" where
  "append_sub_chunks hash url [] chunks pos = (chunks, pos)"
| "append_sub_chunks hash url (sub_chunk # rest) chunks pos =
     append_sub_chunks hash url rest
       (chunks @ [make_chunk hash url pos sub_chunk (length sub_chunk)]) (Suc pos)"

text \<open>The sentence loop of \<open>chunk_text\<close> over \<open>enumerate(sentences)\<close>; the loop state is
  \<open>chunks\<close>, \<open>position\<close> and \<open>current_chunk\<close>.\<close>

fun sentence_loop ::
  "(string \<Rightarrow> int) \<Rightarrow> string \<Rightarrow> int \<Rightarrow> string list \<Rightarrow> nat \<Rightarrow> (nat \<times> string) list \<Rightarrow>
   ContentChunk list \<Rightarrow> nat \<Rightarrow> string \<Rightarrow> error + (ContentChunk list \<times> nat \<times> string)" where
  "sentence_loop hash url max_chunk_size original_endings n_sentences [] chunks pos current_chunk =
     Inr (chunks, pos, current_chunk)"
| "sentence_loop hash url max_chunk_size original_endings n_sentences ((i, raw) # rest)
     chunks pos current_chunk =
     (let sentence = strip raw in
      if sentence = [] then
        sentence_loop hash url max_chunk_size original_endings n_sentences rest
          chunks pos current_chunk
      else
        (let ending =
               (if i < length original_endings
                then original_endings ! (min i (length original_endings - 1)) else ''.'');
             sentence_with_ending =
               (if int i < int n_sentences - 1 \<or> ending \<noteq> ''.'' then sentence @ ending
                else sentence)
         in
         if int (length current_chunk) + int (length sentence_with_ending) +
              (if current_chunk \<noteq> [] then 1 else 0) \<le> max_chunk_size then
           sentence_loop hash url max_chunk_size original_endings n_sentences rest chunks pos
             (if current_chunk \<noteq> [] then current_chunk @ '' '' @ sentence_with_ending
              else sentence_with_ending)
         else if current_chunk \<noteq> [] then
           sentence_loop hash url max_chunk_size original_endings n_sentences rest
             (chunks @ [make_chunk hash url pos (strip current_chunk) (length current_chunk)])
             (Suc pos) sentence_with_ending
         else if int (length sentence_with_ending) > max_chunk_size then
           (case split_long_sentence sentence_with_ending max_chunk_size of
              Inl e \<Rightarrow> Inl e
            | Inr sub_chunks \<Rightarrow>
                (case append_sub_chunks hash url sub_chunks chunks pos of
                   (chunks', pos') \<Rightarrow>
                     sentence_loop hash url max_chunk_size original_endings n_sentences rest
                       chunks' pos' current_chunk))
         else
           sentence_loop hash url max_chunk_size original_endings n_sentences rest chunks pos
             sentence_with_ending))"

definition chunk_text :: "(string \<Rightarrow> int) \<Rightarrow> string \<Rightarrow> string \<Rightarrow> int \<Rightarrow> error + ContentChunk list" where
  "chunk_text hash txt url max_chunk_size =
     (if int (length txt) \<le> max_chunk_size then
        Inr [make_chunk hash url 0 txt (length txt)]
      else
        (let sentences = re_split_endings txt;
             original_endings = re_findall_endings txt
         in case sentence_loop hash url max_chunk_size original_endings (length sentences)
                   (enumerate 0 sentences) [] 0 [] of
              Inl e \<Rightarrow> Inl e
            | Inr (chunks, pos, current_chunk) \<Rightarrow>
                Inr (if current_chunk \<noteq> [] then
                       chunks @ [make_chunk hash url pos (strip current_chunk)
                                   (length current_chunk)]
                     else chunks)))"

declare str_nat.simps [simp del]
declare re_split_endings.simps [simp del]
declare re_findall_endings.simps [simp del]
declare split_ws.simps [simp del]
declare word_slices.simps [simp del]

section \<open>Hallucination heuristic (answer\_generation/utils.py)\<close>

text \<open>\<open>str.lower\<close> on one character: \<open>A\<close>--\<open>Z\<close> and the upper-case letters of Latin-1
  move up by 32.\<close>

definition lower_char :: "char \<Rightarrow> char" where
  "lower_char c =
     (let n = (of_char c :: nat) in
      if (0x41 \<le> n \<and> n \<le> 0x5A) \<or> (0xC0 \<le> n \<and> n \<le> 0xDE \<and> n \<noteq> 0xD7)
      then char_of (n + 0x20) else c)"

definition lower :: "string \<Rightarrow> string" where
  "lower s = map lower_char s"

text \<open>The class \<open>\w\<close> of a \<open>str\<close> pattern: the alphanumeric characters and the underscore.\<close>

definition is_word_char :: "char \<Rightarrow> bool" where
  "is_word_char c =
     (let n = (of_char c :: nat) in
      (0x30 \<le> n \<and> n \<le> 0x39) \<or> (0x41 \<le> n \<and> n \<le> 0x5A) \<or> n = 0x5F \<or>
      (0x61 \<le> n \<and> n \<le> 0x7A) \<or>
      n = 0xAA \<or> n = 0xB2 \<or> n = 0xB3 \<or> n = 0xB5 \<or> n = 0xB9 \<or> n = 0xBA \<or>
      n = 0xBC \<or> n = 0xBD \<or> n = 0xBE \<or>
      (0xC0 \<le> n \<and> n \<noteq> 0xD7 \<and> n \<noteq> 0xF7))"

text \<open>\<open>re.findall(r'\b\w{4,}\b', s)\<close>: the maximal runs of word characters that have at
  least four characters, in order.\<close>

function re_findall_words :: "string \<Rightarrow> string list" where
  "re_findall_words s =
     (let rest = dropWhile (\<lambda>c. \<not> is_word_char c) s
      in if rest = [] then []
         else
           (let word = takeWhile is_word_char rest;
                others = re_findall_words (dropWhile is_word_char rest)
            in if length word \<ge> 4 then word # others else others))"
  by pat_completeness auto
termination
proof (relation "measure length")
  fix s rest
  assume "rest = dropWhile (\<lambda>c. \<not> is_word_char c) s" and "rest \<noteq> []"
  then obtain c cs where r: "rest = c # cs" and "is_word_char c"
    by (metis hd_dropWhile list.exhaust_sel)
  then have "length (dropWhile is_word_char rest) \<le> length cs"
    by (simp add: length_dropWhile_le)
  moreover have "length rest \<le> length s"
    using \<open>rest = dropWhile (\<lambda>c. \<not> is_word_char c) s\<close> by (simp add: length_dropWhile_le)
  ultimately show "(dropWhile is_word_char rest, s) \<in> measure length"
    using r by simp
qed simp

declare re_findall_words.simps [simp del]

definition insufficient_context_phrases :: "string list" where
  "insufficient_context_phrases =
     [''i cannot answer'',
      ''no context provided'',
      ''not enough information'',
      ''based on my general knowledge'',
      ''i don'' @ [CHR 0x27] @ ''t have access to'',
      ''i don'' @ [CHR 0x27] @ ''t know'']"

text \<open>\<open>detect_hallucination\<close>. The quotient \<open>len(common_words) / len(answer_words)\<close> is a
  correctly rounded float and \<open>0.3\<close> is the float nearest to \<open>3/10\<close>, so for word counts
  below \<open>2^50\<close> the float comparison decides as the comparison of the exact quotient with
  \<open>3/10\<close> does; the model compares rationals.\<close>

definition detect_hallucination :: "string \<Rightarrow> string list \<Rightarrow> bool" where
  "detect_hallucination answer context_chunks =
     (if answer = [] \<or> context_chunks = [] then False
      else
        (let full_context = lower (join '' '' context_chunks);
             answer_lower = lower answer
         in if list_ex (\<lambda>phrase. contains phrase answer_lower) insufficient_context_phrases
            then False
            else
              (let answer_words = set (re_findall_words answer_lower);
                   context_words = set (re_findall_words full_context)
               in if answer_words = {} then False
                  else
                    (let common_words = answer_words \<inter> context_words;
                         overlap_ratio =
                           (of_nat (card common_words) :: rat) / of_nat (card answer_words)
                     in if overlap_ratio < 3 / 10 then True else False))))"

text \<open>The quantities of the documented rule: the words of an answer and of a context, the
  abstention test and the overlap ratio, which is 0 for an answer without words.\<close>

definition answer_words_of :: "string \<Rightarrow> string set" where
  "answer_words_of answer = set (re_findall_words (lower answer))"

definition context_words_of :: "string list \<Rightarrow> string set" where
  "context_words_of context_chunks = set (re_findall_words (lower (join '' '' context_chunks)))"

definition has_abstention_phrase :: "string \<Rightarrow> bool" where
  "has_abstention_phrase answer =
     list_ex (\<lambda>phrase. contains phrase (lower answer)) insufficient_context_phrases"

definition overlapRatio :: "string \<Rightarrow> string list \<Rightarrow> rat" where
  "overlapRatio answer context_chunks =
     (if answer_words_of answer = {} then 0
      else of_nat (card (answer_words_of answer \<inter> context_words_of context_chunks)) /
           of_nat (card (answer_words_of answer)))"

section \<open>Circuit breaker and gateway client (answer\_generation/openrouter\_client.py)\<close>

datatype breaker_state = CLOSED | OPEN | HALF_OPEN

text \<open>The fields of \<open>CircuitBreaker\<close>; \<open>stored_state\<close> is the attribute \<open>_state\<close>. Clock
  readings (\<open>time.time()\<close>) are reals, in seconds.\<close>

record CircuitBreaker =
  failure_threshold :: int
  recovery_timeout :: int
  failure_count :: int
  last_failure_time :: "real option"
  stored_state :: breaker_state

text \<open>\<open>__init__\<close>.\<close>

definition new_breaker :: "int \<Rightarrow> int \<Rightarrow> CircuitBreaker" where
  "new_breaker threshold timeout =
     \<lparr> failure_threshold = threshold, recovery_timeout = timeout, failure_count = 0,
       last_failure_time = None, stored_state = CLOSED \<rparr>"

text \<open>The property \<open>state\<close>, read when the clock shows \<open>now\<close>: it returns the state and
  may store \<open>HALF_OPEN\<close>. \<open>None\<close> and \<open>0.0\<close> are falsy values of \<open>last_failure_time\<close>.\<close>

definition state :: "real \<Rightarrow> CircuitBreaker \<Rightarrow> breaker_state \<times> CircuitBreaker" where
  "state now cb =
     (case last_failure_time cb of
        None \<Rightarrow> (stored_state cb, cb)
      | Some t \<Rightarrow>
          if stored_state cb = OPEN \<and> t \<noteq> 0 then
            (if now - t \<ge> real_of_int (recovery_timeout cb)
             then (HALF_OPEN, cb\<lparr>stored_state := HALF_OPEN\<rparr>)
             else (stored_state cb, cb))
          else (stored_state cb, cb))"

text \<open>\<open>_open_circuit\<close>, when the clock shows \<open>now\<close>.\<close>

definition open_circuit :: "real \<Rightarrow> CircuitBreaker \<Rightarrow> CircuitBreaker" where
  "open_circuit now cb = cb\<lparr>stored_state := OPEN, last_failure_time := Some now\<rparr>"

text \<open>
  \<open>call\<close>. The wrapped operation \<open>func\<close> acts on a world \<open>'w\<close> and either raises or returns,
  so a call that does not invoke it leaves the world as it was and returns the same for
  every \<open>func\<close>. The clock is read up to three times: \<open>t1\<close> and \<open>t2\<close> by the two tests of the
  property \<open>state\<close>, \<open>t3\<close> by \<open>_open_circuit\<close> after the operation has failed.
\<close>

definition call ::
  "CircuitBreaker \<Rightarrow> real \<Rightarrow> real \<Rightarrow> real \<Rightarrow> ('w \<Rightarrow> (error + 'a) \<times> 'w) \<Rightarrow> 'w \<Rightarrow>
   (error + 'a) \<times> CircuitBreaker \<times> 'w" where
  "call cb t1 t2 t3 func w =
     (case state t1 cb of
        (s1, cb1) \<Rightarrow>
          if s1 = OPEN then
            (Inl (Exception ''Circuit breaker is OPEN - API calls temporarily disabled''), cb1, w)
          else
            (case state t2 cb1 of
               (s2, cb2) \<Rightarrow>
                 if s2 = HALF_OPEN then
                   (case func w of
                      (Inr result, w') \<Rightarrow>
                        (Inr result, cb2\<lparr>stored_state := CLOSED, failure_count := 0\<rparr>, w')
                    | (Inl e, w') \<Rightarrow> (Inl e, open_circuit t3 cb2, w'))
                 else
                   (case func w of
                      (Inr result, w') \<Rightarrow> (Inr result, cb2, w')
                    | (Inl e, w') \<Rightarrow>
                        (let cb3 = cb2\<lparr>failure_count := failure_count cb2 + 1\<rparr> in
                         if failure_count cb3 \<ge> failure_threshold cb3
                         then (Inl e, open_circuit t3 cb3, w')
                         else (Inl e, cb3, w')))))"

text \<open>The outcome of one \<open>session.post\<close>: a response with its status code and, for what the
  200 branch reads of it, its body, or an exception. The body either yields
  \<open>choices[0].message.content\<close>, or has no or an empty \<open>choices\<close>, or raises while it is
  decoded or indexed.\<close>

datatype response_body = Content "string option" | NoChoices | BodyRaises error

datatype http_outcome = Response int response_body | PostRaises error

datatype step = Return "string option" | Continue

text \<open>The body of the \<open>try\<close> in one pass of the retry loop: it returns from
  \<open>_make_request\<close>, goes on to the next attempt, or raises. The sleeps do not show in
  the model.\<close>

definition try_body :: "int \<Rightarrow> nat \<Rightarrow> http_outcome \<Rightarrow> error + step" where
  "try_body MAX_RETRIES attempt outcome =
     (case outcome of
        PostRaises e \<Rightarrow> Inl e
      | Response status_code body \<Rightarrow>
          if status_code = 200 then
            (case body of
               BodyRaises e \<Rightarrow> Inl e
             | Content answer_text \<Rightarrow> Inr (Return answer_text)
             | NoChoices \<Rightarrow>
                 if int attempt < MAX_RETRIES - 1 then Inr Continue else Inr (Return None))
          else if status_code = 429 then Inr Continue
          else if status_code = 401 then Inr (Return None)
          else if status_code = 400 then Inr (Return None)
          else if status_code = 403 then Inr (Return None)
          else if status_code = 404 then Inr (Return None)
          else if status_code \<ge> 500 then
            (if int attempt < MAX_RETRIES - 1 then Inr Continue else Inr (Return None))
          else
            (if int attempt < MAX_RETRIES - 1 then Inr Continue else Inr (Return None)))"

text \<open>The \<open>except\<close> clauses, in the order of the source; the last one takes every
  \<open>Exception\<close>.\<close>

definition handle_exception :: "int \<Rightarrow> nat \<Rightarrow> error \<Rightarrow> error + step" where
  "handle_exception MAX_RETRIES attempt e =
     (case e of
        Timeout \<Rightarrow>
          if int attempt = MAX_RETRIES - 1 then Inr (Return None) else Inr Continue
      | ConnectionError \<Rightarrow>
          if int attempt = MAX_RETRIES - 1 then Inr (Return None) else Inr Continue
      | RequestException \<Rightarrow>
          if int attempt = MAX_RETRIES - 1 then Inr (Return None) else Inr Continue
      | _ \<Rightarrow>
          if int attempt = MAX_RETRIES - 1 then Inr (Return None) else Inr Continue)"

definition attempt_step :: "int \<Rightarrow> nat \<Rightarrow> http_outcome \<Rightarrow> error + step" where
  "attempt_step MAX_RETRIES attempt outcome =
     (case try_body MAX_RETRIES attempt outcome of
        Inr s \<Rightarrow> Inr s
      | Inl e \<Rightarrow> handle_exception MAX_RETRIES attempt e)"

text \<open>The loop \<open>for attempt in range(MAX_RETRIES)\<close>. The world is the number of POSTs
  performed so far; \<open>http k prompt\<close> is the outcome of POST number \<open>k\<close>. The result is what
  \<open>_make_request\<close> returns (\<open>Inr\<close>) or raises (\<open>Inl\<close>), with the new number of POSTs.\<close>

function request_loop ::
  "int \<Rightarrow> (nat \<Rightarrow> string \<Rightarrow> http_outcome) \<Rightarrow> string \<Rightarrow> nat \<Rightarrow> nat \<Rightarrow> (error + string option) \<times> nat" where
  "request_loop MAX_RETRIES http prompt attempt posts =
     (if int attempt < MAX_RETRIES then
        (case attempt_step MAX_RETRIES attempt (http posts prompt) of
           Inl e \<Rightarrow> (Inl e, Suc posts)
         | Inr (Return r) \<Rightarrow> (Inr r, Suc posts)
         | Inr Continue \<Rightarrow> request_loop MAX_RETRIES http prompt (Suc attempt) (Suc posts))
      else (Inr None, posts))"
  by pat_completeness auto
termination
  by (relation "measure (\<lambda>(MAX_RETRIES, http, prompt, attempt, posts). nat (MAX_RETRIES - int attempt))")
     auto

declare request_loop.simps [simp del]

text \<open>\<open>_make_request\<close>. Before the loop it waits on the rate limiter and builds the
  payload from the prompt and the configuration; neither raises nor posts.\<close>

definition make_request ::
  "int \<Rightarrow> (nat \<Rightarrow> string \<Rightarrow> http_outcome) \<Rightarrow> string \<Rightarrow> nat \<Rightarrow> (error + string option) \<times> nat" where
  "make_request MAX_RETRIES http prompt posts = request_loop MAX_RETRIES http prompt 0 posts"

record OpenRouterClient =
  MAX_RETRIES :: int
  circuit_breaker :: CircuitBreaker

text \<open>\<open>OpenRouterClient.__init__\<close>: the breaker's threshold is \<open>MAX_RETRIES + 2\<close>, its
  recovery timeout 60 seconds.\<close>

definition new_client :: "int \<Rightarrow> OpenRouterClient" where
  "new_client max_retries =
     \<lparr> MAX_RETRIES = max_retries, circuit_breaker = new_breaker (max_retries + 2) 60 \<rparr>"

text \<open>\<open>send_request\<close>: the request goes through the breaker, and every exception becomes
  \<open>None\<close>.\<close>

definition send_request ::
  "OpenRouterClient \<Rightarrow> (nat \<Rightarrow> string \<Rightarrow> http_outcome) \<Rightarrow> real \<Rightarrow> real \<Rightarrow> real \<Rightarrow> string \<Rightarrow> nat \<Rightarrow>
   string option \<times> OpenRouterClient \<times> nat" where
  "send_request client http t1 t2 t3 prompt posts =
     (case call (circuit_breaker client) t1 t2 t3
             (make_request (MAX_RETRIES client) http prompt) posts of
        (Inr r, cb, posts') \<Rightarrow> (r, client\<lparr>circuit_breaker := cb\<rparr>, posts')
      | (Inl e, cb, posts') \<Rightarrow> (None, client\<lparr>circuit_breaker := cb\<rparr>, posts'))"

text \<open>A run of \<open>send_request\<close> calls on one client, each with its prompt and the clock
  readings of its breaker.\<close>

fun send_requests ::
  "OpenRouterClient \<Rightarrow> (nat \<Rightarrow> string \<Rightarrow> http_outcome) \<Rightarrow> (string \<times> real \<times> real \<times> real) list \<Rightarrow> nat \<Rightarrow>
   string option list \<times> OpenRouterClient \<times> nat" where
  "send_requests client http [] posts = ([], client, posts)"
| "send_requests client http ((prompt, t1, t2, t3) # rest) posts =
     (case send_request client http t1 t2 t3 prompt posts of
        (r, client', posts') \<Rightarrow>
          (case send_requests client' http rest posts' of
             (rs, client'', posts'') \<Rightarrow> (r # rs, client'', posts'')))"

text \<open>A run of failing calls through a breaker: call \<open>k\<close> invokes an operation that raises
  \<open>e\<close>, and its clock readings are the \<open>k\<close>-th triple.\<close>

fun failing_calls :: "CircuitBreaker \<Rightarrow> error \<Rightarrow> (real \<times> real \<times> real) list \<Rightarrow> CircuitBreaker" where
  "failing_calls cb e [] = cb"
| "failing_calls cb e ((t1, t2, t3) # rest) =
     (case call cb t1 t2 t3 (\<lambda>w. (Inl e :: error + unit, w)) () of
        (r, cb', w') \<Rightarrow> failing_calls cb' e rest)"

text \<open>What a breaker must satisfy so that \<open>n\<close> further failing calls leave it open: it is
  closed and the failures still to come reach the threshold, or it is open already.\<close>

definition opens_within :: "CircuitBreaker \<Rightarrow> nat \<Rightarrow> bool" where
  "opens_within cb n =
     (if stored_state cb = CLOSED then failure_threshold cb \<le> failure_count cb + int n \<and> 0 < n
      else stored_state cb = OPEN \<and> last_failure_time cb \<noteq> None)"

section \<open>Ingestion pipeline (ingestion/ingest.py)\<close>

text \<open>An entry of the sitemap, as \<open>parse_sitemap\<close> builds it.\<close>

record url_data =
  url :: string
  last_modified :: "string option"
  change_frequency :: "string option"
  priority :: "rat option"

text \<open>The content of the checkpoint file \<open>ingestion_progress.json\<close>.\<close>

record progress_data =
  saved_processed_urls :: "string list"
  saved_failed_urls :: "string list"

text \<open>\<open>load_progress\<close>: a missing or unreadable file gives two empty lists.\<close>

definition load_progress :: "progress_data option \<Rightarrow> progress_data" where
  "load_progress checkpoint_file =
     (case checkpoint_file of
        None \<Rightarrow> \<lparr> saved_processed_urls = [], saved_failed_urls = [] \<rparr>
      | Some progress \<Rightarrow> progress)"

text \<open>The variables of \<open>run_ingestion_pipeline\<close> during its URL loop, and the checkpoint
  file.\<close>

record pipeline_state =
  all_chunks :: "ContentChunk list"
  newly_processed_urls :: "string list"
  processed_urls :: "string list"
  failed_urls :: "string list"
  checkpoint :: "progress_data option"

definition save_progress :: "pipeline_state \<Rightarrow> pipeline_state" where
  "save_progress st =
     st\<lparr>checkpoint := Some \<lparr> saved_processed_urls = processed_urls st,
                             saved_failed_urls = failed_urls st \<rparr>\<rparr>"

text \<open>What the loop body makes of the result of one extraction of the URL \<open>u\<close>: the
  branches \<open>if chunks\<close>, \<open>else\<close> and \<open>except Exception\<close>.\<close>

definition record_result ::
  "string \<Rightarrow> error + ContentChunk list option \<Rightarrow> pipeline_state \<Rightarrow> pipeline_state" where
  "record_result u result st =
     (case result of
        Inr (Some chunks) \<Rightarrow>
          if chunks \<noteq> [] then
            st\<lparr>all_chunks := all_chunks st @ chunks,
               newly_processed_urls := newly_processed_urls st @ [u],
               processed_urls := processed_urls st @ [u]\<rparr>
          else st\<lparr>failed_urls := failed_urls st @ [u]\<rparr>
      | Inr None \<Rightarrow> st\<lparr>failed_urls := failed_urls st @ [u]\<rparr>
      | Inl e \<Rightarrow> st\<lparr>failed_urls := failed_urls st @ [u]\<rparr>)"

text \<open>The loop over \<open>enumerate(urls_to_process)\<close>. \<open>extract url\<close> is what
  \<open>extract_and_chunk_url(url)\<close> does: it acts on a world \<open>'w\<close> (the sites it fetches from)
  and raises, or returns \<open>None\<close> or a list of chunks. The world is threaded through the
  calls in the order the loop makes them, so a URL the loop does not extract leaves no
  mark on it.\<close>

fun process_urls ::
  "(string \<Rightarrow> 'w \<Rightarrow> (error + ContentChunk list option) \<times> 'w) \<Rightarrow> (nat \<times> url_data) list \<Rightarrow>
   pipeline_state \<Rightarrow> 'w \<Rightarrow> pipeline_state \<times> 'w" where
  "process_urls extract [] st w = (st, w)"
| "process_urls extract ((i, entry) # rest) st w =
     (let u = url entry in
      case extract u w of
        (result, w') \<Rightarrow>
          (let st2 = record_result u result st;
               st3 = (if (i + 1) mod 10 = 0 then save_progress st2 else st2)
           in process_urls extract rest st3 w'))"

text \<open>\<open>run_ingestion_pipeline\<close> from the loaded sitemap to the final save of the progress
  (the embedding and storing steps that follow call no extraction).\<close>

definition run_ingestion_pipeline ::
  "(string \<Rightarrow> 'w \<Rightarrow> (error + ContentChunk list option) \<times> 'w) \<Rightarrow> url_data list \<Rightarrow> bool \<Rightarrow>
   progress_data option \<Rightarrow> 'w \<Rightarrow> pipeline_state \<times> 'w" where
  "run_ingestion_pipeline extract sitemap_urls resume checkpoint_file w =
     (let st0 =
            (if resume then
               (let progress = load_progress checkpoint_file in
                \<lparr> all_chunks = [], newly_processed_urls = [],
                  processed_urls = saved_processed_urls progress,
                  failed_urls = saved_failed_urls progress,
                  checkpoint = checkpoint_file \<rparr>)
             else
               \<lparr> all_chunks = [], newly_processed_urls = [], processed_urls = [],
                 failed_urls = [], checkpoint = None \<rparr>);
          urls_to_process =
            (if resume then
               filter (\<lambda>entry. url entry \<notin> set (processed_urls st0)) sitemap_urls
             else sitemap_urls)
      in case process_urls extract (enumerate 0 urls_to_process) st0 w of
           (st, w') \<Rightarrow> (save_progress st, w'))"

section \<open>Prompt constructor: format and truncation\<close>

lemma starts_with_append: "starts_with p (p @ s)"
  by (induction p) auto

lemma starts_with_contains: "starts_with sub s \<Longrightarrow> contains sub s"
  by (cases s) auto

lemma contains_prepend: "contains sub s \<Longrightarrow> contains sub (pre @ s)"
  by (induction pre) auto

lemma contains_mid: "contains sub (pre @ sub @ post)"
  by (intro contains_prepend starts_with_contains starts_with_append)

lemma strip_nonempty: "\<not> is_space c \<Longrightarrow> strip (c # cs) \<noteq> []"
  by (simp add: strip_def dropWhile_append)

lemma grounding_instructions_marker:
  "grounding_instructions = ''Instructions:'' @ drop 13 grounding_instructions"
  by (simp add: grounding_instructions_def)

lemma no_context_instructions_marker:
  "no_context_instructions = ''Instructions:'' @ drop 13 no_context_instructions"
  by (simp add: no_context_instructions_def)

lemma prompt_with_context_question: "contains ''Question:'' (prompt_with_context c q)"
proof -
  have "prompt_with_context c q =
      (''Context:'' @ NL @ c @ NL @ NL) @ ''Question:'' @ ('' '' @ q @ NL @ NL @ grounding_instructions)"
    by (simp add: prompt_with_context_def)
  then show ?thesis by (simp only: contains_mid)
qed

lemma prompt_with_context_instructions: "contains ''Instructions:'' (prompt_with_context c q)"
proof -
  have "prompt_with_context c q =
      (''Context:'' @ NL @ c @ NL @ NL @ ''Question: '' @ q @ NL @ NL) @ ''Instructions:'' @
      drop 13 grounding_instructions"
    using grounding_instructions_marker by (simp add: prompt_with_context_def)
  then show ?thesis by (simp only: contains_mid)
qed

lemma prompt_with_context_context: "contains ''Context:'' (prompt_with_context c q)"
proof -
  have "prompt_with_context c q =
      ''Context:'' @ (NL @ c @ NL @ NL @ ''Question: '' @ q @ NL @ NL @ grounding_instructions)"
    by (simp add: prompt_with_context_def)
  then show ?thesis by (simp only: starts_with_contains starts_with_append)
qed

lemma prompt_with_context_valid: "validate_prompt_format (prompt_with_context c q)"
proof -
  have "prompt_with_context c q = CHR ''C'' # tl (prompt_with_context c q)"
    by (simp add: prompt_with_context_def)
  moreover have "\<not> is_space CHR ''C''" by (simp add: is_space_def)
  ultimately have "strip (prompt_with_context c q) \<noteq> []"
    by (metis strip_nonempty)
  moreover from this have "prompt_with_context c q \<noteq> []" by (auto simp: strip_def)
  ultimately show ?thesis
    by (simp add: validate_prompt_format_def prompt_with_context_question
        prompt_with_context_instructions prompt_with_context_context)
qed

lemma no_context_question: "contains ''Question:'' (create_prompt_without_context q)"
proof -
  have "create_prompt_without_context q =
      ''Question:'' @ ('' '' @ q @ NL @ NL @ no_context_instructions)"
    by (simp add: create_prompt_without_context_def)
  then show ?thesis by (simp only: starts_with_contains starts_with_append)
qed

lemma no_context_instructions_present:
  "contains ''Instructions:'' (create_prompt_without_context q)"
proof -
  have "create_prompt_without_context q =
      (''Question: '' @ q @ NL @ NL) @ ''Instructions:'' @ drop 13 no_context_instructions"
    using no_context_instructions_marker by (simp add: create_prompt_without_context_def)
  then show ?thesis by (simp only: contains_mid)
qed

lemma starts_with_stops:
  "x \<notin> set sub \<Longrightarrow> starts_with sub (u @ x # t) = starts_with sub u"
proof (induction sub arbitrary: u)
  case Nil
  then show ?case by simp
next
  case (Cons p ps)
  then show ?case by (cases u) auto
qed

lemma contains_skips_prefix:
  "c \<notin> set a \<Longrightarrow> contains (c # cs) (a @ s) = contains (c # cs) s"
  by (induction a) auto

lemma contains_stops:
  assumes "x \<notin> set sub" and "sub \<noteq> []"
  shows "contains sub (q @ x # t) = (contains sub q \<or> contains sub (x # t))"
proof (induction q)
  case Nil
  from assms(2) show ?case by (cases sub) auto
next
  case (Cons y q)
  have "starts_with sub (y # q @ x # t) = starts_with sub (y # q)"
    using starts_with_stops [OF assms(1), of "y # q" t] by simp
  with Cons show ?case by auto
qed

lemma no_context_context_marker:
  "contains ''Context:'' (create_prompt_without_context q) = contains ''Context:'' q"
proof -
  have "contains ''Context:'' (create_prompt_without_context q) =
        contains ''Context:'' (q @ CHR 0x0A # (NL @ no_context_instructions))"
    unfolding create_prompt_without_context_def
    using contains_skips_prefix [of "CHR ''C''" "''Question: ''" "''ontext:''"
        "q @ NL @ NL @ no_context_instructions"]
    by (simp add: NL_def)
  also have "\<dots> = (contains ''Context:'' q \<or>
        contains ''Context:'' (CHR 0x0A # (NL @ no_context_instructions)))"
    by (rule contains_stops) simp_all
  also have "\<dots> = contains ''Context:'' q"
    by (simp add: NL_def DQ_def no_context_instructions_def)
  finally show ?thesis .
qed

lemma no_context_valid:
  "validate_prompt_format (create_prompt_without_context q) = contains ''Context:'' q"
proof -
  have "create_prompt_without_context q = CHR ''Q'' # tl (create_prompt_without_context q)"
    by (simp add: create_prompt_without_context_def)
  moreover have "\<not> is_space CHR ''Q''" by (simp add: is_space_def)
  ultimately have "strip (create_prompt_without_context q) \<noteq> []"
    by (metis strip_nonempty)
  moreover from this have "create_prompt_without_context q \<noteq> []" by (auto simp: strip_def)
  ultimately show ?thesis
    by (simp add: validate_prompt_format_def no_context_question
        no_context_instructions_present no_context_context_marker)
qed

text \<open>
  Claim C2, as the code has it: for every query that is non-blank after trimming, every list
  of context chunks and every \<open>max_context_length\<close>, \<open>construct_prompt\<close> returns a prompt
  that contains the markers \<open>Question:\<close> and \<open>Instructions:\<close>. When at least one chunk is
  non-blank, \<open>validate_prompt_format\<close> accepts the prompt. When the list is empty or all
  its chunks are blank, the prompt is the no-context prompt, whose fixed text has no
  \<open>Context:\<close> marker: \<open>validate_prompt_format\<close> accepts it exactly when the query itself
  contains \<open>Context:\<close>.
\<close>

theorem construct_prompt_format:
  assumes "\<not> blank query"
  shows "\<exists>prompt. construct_prompt query context_chunks max_context_length = Inr prompt \<and>
           contains ''Question:'' prompt \<and> contains ''Instructions:'' prompt \<and>
           ((\<exists>chunk \<in> set context_chunks. \<not> blank chunk) \<longrightarrow> validate_prompt_format prompt) \<and>
           (\<not> (\<exists>chunk \<in> set context_chunks. \<not> blank chunk) \<longrightarrow>
              prompt = create_prompt_without_context query \<and>
              validate_prompt_format prompt = contains ''Context:'' query)"
proof (cases "filter (\<lambda>chunk. \<not> blank chunk) context_chunks = []")
  case True
  then have "construct_prompt query context_chunks max_context_length =
      Inr (create_prompt_without_context query)"
    using assms by (simp add: construct_prompt_def)
  moreover from True have "\<not> (\<exists>chunk \<in> set context_chunks. \<not> blank chunk)"
    by (simp add: filter_empty_conv)
  ultimately show ?thesis
    using no_context_question no_context_instructions_present no_context_valid by auto
next
  case False
  then have "context_chunks \<noteq> []" by auto
  with False assms obtain c where
    "construct_prompt query context_chunks max_context_length = Inr (prompt_with_context c query)"
    by (simp add: construct_prompt_def Let_def)
  moreover from False have "\<exists>chunk \<in> set context_chunks. \<not> blank chunk"
    by (simp add: filter_empty_conv)
  ultimately show ?thesis
    using prompt_with_context_valid prompt_with_context_question
      prompt_with_context_instructions by auto
qed

text \<open>
  The theorem at the query \<open>q\<close> with the chunk \<open>abc\<close> and with two blank chunks, and at
  the query \<open>Context: q\<close> with no chunk.
\<close>

theorem construct_prompt_format_witness:
  "\<not> blank ''q'' \<and>
   (\<exists>prompt. construct_prompt ''q'' [''abc''] None = Inr prompt \<and> validate_prompt_format prompt) \<and>
   (\<exists>prompt. construct_prompt ''q'' ['' '', []] None = Inr prompt \<and>
      prompt = create_prompt_without_context ''q'' \<and> \<not> validate_prompt_format prompt) \<and>
   (\<exists>prompt. construct_prompt ''Context: q'' [] None = Inr prompt \<and>
      prompt = create_prompt_without_context ''Context: q'' \<and> validate_prompt_format prompt)"
proof -
  have h: "\<not> blank ''q''" by (simp add: blank_def strip_def is_space_def)
  have h': "\<not> blank ''Context: q''" by (simp add: blank_def strip_def is_space_def)
  have c: "\<exists>chunk \<in> set [''abc'']. \<not> blank chunk" by (simp add: blank_def strip_def is_space_def)
  have b: "\<not> (\<exists>chunk \<in> set ['' '', []]. \<not> blank chunk)"
    by (simp add: blank_def strip_def is_space_def)
  have e: "\<not> (\<exists>chunk \<in> set ([] :: string list). \<not> blank chunk)" by simp
  have n: "\<not> contains ''Context:'' ''q''" by simp
  have y: "contains ''Context:'' ''Context: q''" by simp
  have w1: "\<exists>prompt. construct_prompt ''q'' [''abc''] None = Inr prompt \<and> validate_prompt_format prompt"
    using construct_prompt_format [OF h, of "[''abc'']" None] c by blast
  have w2: "\<exists>prompt. construct_prompt ''q'' ['' '', []] None = Inr prompt \<and>
      prompt = create_prompt_without_context ''q'' \<and> \<not> validate_prompt_format prompt"
    using construct_prompt_format [OF h, of "['' '', []]" None] b n by blast
  have w3: "\<exists>prompt. construct_prompt ''Context: q'' [] None = Inr prompt \<and>
      prompt = create_prompt_without_context ''Context: q'' \<and> validate_prompt_format prompt"
    using construct_prompt_format [OF h', of "[]" None] e y by blast
  from h w1 w2 w3 show ?thesis by (intro conjI)
qed

text \<open>
  Claim C2 as stated fails on the empty chunk list: the no-context prompt for the query
  \<open>q\<close> has no \<open>Context:\<close> marker and \<open>validate_prompt_format\<close> rejects it.
\<close>

theorem construct_prompt_no_context_invalid:
  "construct_prompt ''q'' [] None = Inr (create_prompt_without_context ''q'') \<and>
   \<not> validate_prompt_format (create_prompt_without_context ''q'')"
  by (simp add: construct_prompt_def blank_def strip_def is_space_def validate_prompt_format_def
      create_prompt_without_context_def no_context_instructions_def NL_def DQ_def)

lemma truncate_context_positive:
  assumes "0 < m" and "m < int (length context_text)"
  shows "truncate_context context_text (Some m) = take (nat m) context_text"
  using assms by (simp add: truncate_context_def slice_to_def Let_def)

text \<open>
  Claim C8 at the query \<open>q\<close>, the single chunk \<open>hello world\<close> and
  \<open>max_context_length = 8\<close>: the context in the prompt is \<open>hello wo\<close>, the first eight
  characters, and not \<open>hello\<close>. The test \<open>max_context_length < len(context_text)\<close> is made
  after the slice, when the text has exactly \<open>max_context_length\<close> characters, so for a
  positive bound the code never backtracks to a space (\<open>truncate_context_positive\<close>).
\<close>

theorem construct_prompt_cuts_word:
  "construct_prompt ''q'' [''hello world''] (Some 8) =
     Inr (prompt_with_context ''hello wo'' ''q'')"
  by (simp add: construct_prompt_def blank_def strip_def is_space_def truncate_context_def
      slice_to_def)


section \<open>Prompt constructor: length management\<close>

lemma context_cost_nonneg: "0 \<le> context_cost chunks"
  unfolding context_cost_def by (induction chunks) auto

lemma context_cost_Cons:
  "context_cost (c # cs) =
     (if blank c then context_cost cs else int (length c) + 1 + context_cost cs)"
  by (simp add: context_cost_def)

lemma select_context_whole:
  "current_length + context_cost pre \<le> remaining_length \<Longrightarrow>
   select_context remaining_length (pre @ rest) selected current_length =
   select_context remaining_length rest (selected @ filter (\<lambda>chunk. \<not> blank chunk) pre)
     (current_length + context_cost pre)"
proof (induction pre arbitrary: selected current_length)
  case Nil
  then show ?case by (simp add: context_cost_def)
next
  case (Cons c pre)
  show ?case
  proof (cases "blank c")
    case True
    with Cons show ?thesis by (simp add: context_cost_Cons)
  next
    case False
    have nn: "0 \<le> context_cost pre" by (rule context_cost_nonneg)
    from Cons.prems False have fit: "current_length + (int (length c) + 1) \<le> remaining_length"
      using nn by (simp add: context_cost_Cons)
    from Cons.prems False
    have "(current_length + (int (length c) + 1)) + context_cost pre \<le> remaining_length"
      by (simp add: context_cost_Cons)
    from Cons.IH[OF this] False fit show ?thesis
      by (simp add: context_cost_Cons Let_def add.assoc)
  qed
qed

lemma select_context_all_fit:
  assumes "context_cost chunks \<le> remaining_length"
  shows "select_context remaining_length chunks [] 0 = filter (\<lambda>chunk. \<not> blank chunk) chunks"
  using select_context_whole [of 0 chunks remaining_length "[]" "[]"] assms by simp

lemma select_context_truncates:
  assumes "context_cost pre \<le> R" and "\<not> blank c"
    and "R < context_cost pre + int (length c) + 1" and "100 < R - context_cost pre"
  shows "select_context R (pre @ c # post) [] 0 =
           filter (\<lambda>chunk. \<not> blank chunk) pre @ [rsplit1_head (slice_to c (R - context_cost pre))]"
proof -
  have "select_context R (pre @ c # post) [] 0 =
        select_context R (c # post) (filter (\<lambda>chunk. \<not> blank chunk) pre) (context_cost pre)"
    using select_context_whole [of 0 pre R "c # post" "[]"] assms(1) by simp
  also have "\<dots> = filter (\<lambda>chunk. \<not> blank chunk) pre @
                   [rsplit1_head (slice_to c (R - context_cost pre))]"
    using assms by (simp add: Let_def)
  finally show ?thesis .
qed

lemma select_context_skips:
  assumes "context_cost pre \<le> R" and "\<not> blank c"
    and "R < context_cost pre + int (length c) + 1" and "R - context_cost pre \<le> 100"
  shows "select_context R (pre @ c # post) [] 0 = select_context R (pre @ post) [] 0"
proof -
  have "select_context R (pre @ c # post) [] 0 =
        select_context R (c # post) (filter (\<lambda>chunk. \<not> blank chunk) pre) (context_cost pre)"
    using select_context_whole [of 0 pre R "c # post" "[]"] assms(1) by simp
  also have "\<dots> = select_context R post (filter (\<lambda>chunk. \<not> blank chunk) pre) (context_cost pre)"
    using assms by (simp add: Let_def)
  also have "\<dots> = select_context R (pre @ post) [] 0"
    using select_context_whole [of 0 pre R post "[]"] assms(1) by simp
  finally show ?thesis .
qed

lemma context_cost_positive:
  assumes "\<exists>chunk \<in> set chunks. \<not> blank chunk"
  shows "0 < context_cost chunks"
  using assms
proof (induction chunks)
  case Nil
  then show ?case by simp
next
  case (Cons c cs)
  then show ?case
    using context_cost_nonneg [of cs] by (auto simp: context_cost_Cons)
qed

text \<open>
  Claim C9, as the code has it. Let \<open>R\<close> be the context budget
  \<open>max_total_length - len(base_prompt) - 500\<close> and let the cost of a list be the sum of
  \<open>len(chunk) + 1\<close> over its non-blank chunks.
  \<^item> When all non-blank chunks fit the budget, they are the context, in order.
  \<^item> When the chunks \<open>pre\<close> fit and the next non-blank chunk \<open>c\<close> overflows with more than
    100 characters of budget left, \<open>c\<close> is cut to the remaining space and back to its last
    space (if it has one), it is the last element of the context, and the chunks after it
    make no difference.
  \<^item> When \<open>c\<close> overflows with at most 100 characters left, it is skipped and the chunks
    after it are still considered: the result is that of the list without \<open>c\<close>.
\<close>

theorem length_management_selection:
  assumes "\<not> blank query" and "R = remaining_length_of query max_total_length"
  shows
    "(context_cost chunks \<le> R \<and> (\<exists>chunk \<in> set chunks. \<not> blank chunk) \<longrightarrow>
        construct_prompt_with_length_management query chunks max_total_length =
          Inr (prompt_with_context (join NL (filter (\<lambda>chunk. \<not> blank chunk) chunks)) query)) \<and>
     (context_cost pre \<le> R \<and> \<not> blank c \<and> R < context_cost pre + int (length c) + 1 \<and>
      100 < R - context_cost pre \<longrightarrow>
        construct_prompt_with_length_management query (pre @ c # post) max_total_length =
          Inr (prompt_with_context
                 (join NL (filter (\<lambda>chunk. \<not> blank chunk) pre @
                    [rsplit1_head (slice_to c (R - context_cost pre))])) query)) \<and>
     (context_cost pre \<le> R \<and> \<not> blank c \<and> R < context_cost pre + int (length c) + 1 \<and>
      R - context_cost pre \<le> 100 \<longrightarrow>
        construct_prompt_with_length_management query (pre @ c # post) max_total_length =
        construct_prompt_with_length_management query (pre @ post) max_total_length)"
proof (intro conjI impI)
  assume a: "context_cost chunks \<le> R \<and> (\<exists>chunk \<in> set chunks. \<not> blank chunk)"
  then have pos: "0 < R" using context_cost_positive [of chunks] by simp
  from a have ne: "chunks \<noteq> []" by auto
  from a have sel: "select_context R chunks [] 0 = filter (\<lambda>chunk. \<not> blank chunk) chunks"
    by (simp add: select_context_all_fit)
  from a have "filter (\<lambda>chunk. \<not> blank chunk) chunks \<noteq> []"
    by (simp add: filter_empty_conv)
  with assms pos ne sel
  show "construct_prompt_with_length_management query chunks max_total_length =
          Inr (prompt_with_context (join NL (filter (\<lambda>chunk. \<not> blank chunk) chunks)) query)"
    by (simp add: construct_prompt_with_length_management_def Let_def)
next
  assume a: "context_cost pre \<le> R \<and> \<not> blank c \<and> R < context_cost pre + int (length c) + 1 \<and>
      100 < R - context_cost pre"
  then have pos: "0 < R" using context_cost_nonneg [of pre] by simp
  from a have sel: "select_context R (pre @ c # post) [] 0 =
      filter (\<lambda>chunk. \<not> blank chunk) pre @ [rsplit1_head (slice_to c (R - context_cost pre))]"
    by (simp add: select_context_truncates)
  with assms pos
  show "construct_prompt_with_length_management query (pre @ c # post) max_total_length =
          Inr (prompt_with_context
                 (join NL (filter (\<lambda>chunk. \<not> blank chunk) pre @
                    [rsplit1_head (slice_to c (R - context_cost pre))])) query)"
    by (simp add: construct_prompt_with_length_management_def Let_def)
next
  assume a: "context_cost pre \<le> R \<and> \<not> blank c \<and> R < context_cost pre + int (length c) + 1 \<and>
      R - context_cost pre \<le> 100"
  then have sel: "select_context R (pre @ c # post) [] 0 = select_context R (pre @ post) [] 0"
    by (simp add: select_context_skips)
  show "construct_prompt_with_length_management query (pre @ c # post) max_total_length =
        construct_prompt_with_length_management query (pre @ post) max_total_length"
  proof (cases "pre @ post = []")
    case True
    then have "select_context R (pre @ c # post) [] 0 = []" using sel by simp
    with True assms show ?thesis
      by (simp add: construct_prompt_with_length_management_def Let_def)
  next
    case False
    with assms sel show ?thesis
      by (auto simp add: construct_prompt_with_length_management_def Let_def
          simp del: select_context.simps)
  qed
qed

text \<open>
  Claim C9 as stated fails when the overflowing chunk meets a budget of at most 100
  characters: with a budget of 50, the chunk of 60 characters is dropped, not truncated, and
  the chunk after it is added.
\<close>

theorem length_management_skips_overflow:
  "construct_prompt_with_length_management ''q''
     [''aaaaaaaaaaaaaaaaaaaaaaaaaaaaaaaaaaaaaaaaaaaaaaaaaaaaaaaaaaaa'', ''bbbb''] 959 =
   Inr (prompt_with_context ''bbbb'' ''q'')"
  by (simp add: construct_prompt_with_length_management_def blank_def strip_def is_space_def
       remaining_length_of_def base_prompt_def grounding_instructions_def NL_def DQ_def)


lemma remaining_length_of_q: "remaining_length_of ''q'' m = m - 909"
  by (simp add: remaining_length_of_def base_prompt_def grounding_instructions_def NL_def DQ_def)

text \<open>
  The three cases of the theorem at the query \<open>q\<close>, whose base prompt has 409 characters.
\<close>

theorem length_management_selection_witness:
  "\<not> blank ''q'' \<and>
   construct_prompt_with_length_management ''q'' [''abc'', ''  '', ''de''] 1000 =
     Inr (prompt_with_context (''abc'' @ NL @ ''de'') ''q'') \<and>
   construct_prompt_with_length_management ''q''
     [''abc'', ''the quick brown fox jumps over the lazy dog and keeps running through the quiet forest until the evening light fades awa'', ''zzz''] 1020 =
     Inr (prompt_with_context (''abc'' @ NL @ ''the quick brown fox jumps over the lazy dog and keeps running through the quiet forest until the evening'') ''q'') \<and>
   construct_prompt_with_length_management ''q''
     [''abc'', ''aaaaaaaaaaaaaaaaaaaaaaaaaaaaaaaaaaaaaaaaaaaaaaaaaaaaaaaaaaaa'', ''bbbb''] 959 =
   construct_prompt_with_length_management ''q'' [''abc'', ''bbbb''] 959"
proof -
  have q: "\<not> blank ''q''" by (simp add: blank_def strip_def is_space_def)
  have r1: "(91::int) = remaining_length_of ''q'' 1000" by (simp add: remaining_length_of_q)
  have r2: "(111::int) = remaining_length_of ''q'' 1020" by (simp add: remaining_length_of_q)
  have r3: "(50::int) = remaining_length_of ''q'' 959" by (simp add: remaining_length_of_q)
  have c1: "construct_prompt_with_length_management ''q'' [''abc'', ''  '', ''de''] 1000 =
     Inr (prompt_with_context (''abc'' @ NL @ ''de'') ''q'')"
    using length_management_selection [OF q r1, of "[''abc'', ''  '', ''de'']" "[]" "''x''" "[]"]
    by (simp add: context_cost_def blank_def strip_def is_space_def)
  have c2: "construct_prompt_with_length_management ''q''
     [''abc'', ''the quick brown fox jumps over the lazy dog and keeps running through the quiet forest until the evening light fades awa'', ''zzz''] 1020 =
     Inr (prompt_with_context (''abc'' @ NL @ ''the quick brown fox jumps over the lazy dog and keeps running through the quiet forest until the evening'') ''q'')"
    using length_management_selection [OF q r2, of "[]" "[''abc'']" "''the quick brown fox jumps over the lazy dog and keeps running through the quiet forest until the evening light fades awa''" "[''zzz'']"]
    by (simp add: context_cost_def blank_def strip_def is_space_def rsplit1_head_def slice_to_def)
  have c3: "construct_prompt_with_length_management ''q''
     [''abc'', ''aaaaaaaaaaaaaaaaaaaaaaaaaaaaaaaaaaaaaaaaaaaaaaaaaaaaaaaaaaaa'', ''bbbb''] 959 =
     construct_prompt_with_length_management ''q'' [''abc'', ''bbbb''] 959"
    using length_management_selection [OF q r3, of "[]" "[''abc'']"
        "''aaaaaaaaaaaaaaaaaaaaaaaaaaaaaaaaaaaaaaaaaaaaaaaaaaaaaaaaaaaa''" "[''bbbb'']"]
    by (simp add: context_cost_def blank_def strip_def is_space_def)
  from q c1 c2 c3 show ?thesis by blast
qed

section \<open>Chunking and the hallucination heuristic\<close>

text \<open>
  Claim C1 at \<open>max_chunk_size = 5\<close>: for the text \<open>a. bbbbbbbbbb\<close> the second chunk is the
  whole second sentence, with \<open>char_count = 10\<close>; for the text \<open>aa bbbbbbbbbb\<close>, one long
  sentence, the word loop of \<open>_split_long_sentence\<close> emits the long word whole, again with
  \<open>char_count = 10\<close>. In both loops a piece that follows a non-empty buffer becomes the new
  buffer without a test of its own length; only a piece that meets an empty buffer is split.
\<close>

theorem chunk_text_exceeds_max_chunk_size:
  "chunk_text hash ''a. bbbbbbbbbb'' ''u'' 5 =
     Inr [make_chunk hash ''u'' 0 ''a.'' 2, make_chunk hash ''u'' 1 ''bbbbbbbbbb'' 10] \<and>
   chunk_text hash ''aa bbbbbbbbbb'' ''u'' 5 =
     Inr [make_chunk hash ''u'' 0 ''aa'' 2, make_chunk hash ''u'' 1 ''bbbbbbbbbb'' 10] \<and>
   char_count (make_chunk hash ''u'' 1 ''bbbbbbbbbb'' 10) = 10"
  by code_simp

text \<open>
  A single long word that meets an empty buffer is cut into slices of \<open>max_chunk_size\<close>
  characters.
\<close>

lemma chunk_text_hard_split_example:
  "chunk_text hash ''aaaaaaaaaaaaa'' ''u'' 5 =
     Inr [make_chunk hash ''u'' 0 ''aaaaa'' 5, make_chunk hash ''u'' 1 ''aaaaa'' 5,
          make_chunk hash ''u'' 2 ''aaa'' 3]"
  by code_simp

text \<open>
  Claim C3, as the code has it: \<open>detect_hallucination\<close> returns true exactly when the
  answer and the chunk list are non-empty, the lower-cased answer contains none of the six
  abstention phrases, the answer has at least one word of four or more word characters, and
  the overlap ratio is below \<open>3/10\<close>. In particular an answer without such words is not
  flagged, although its overlap ratio counts as 0.
\<close>

theorem detect_hallucination_rule:
  "detect_hallucination answer context_chunks =
     (answer \<noteq> [] \<and> context_chunks \<noteq> [] \<and> \<not> has_abstention_phrase answer \<and>
      answer_words_of answer \<noteq> {} \<and> overlapRatio answer context_chunks < 3 / 10)"
  by (simp add: detect_hallucination_def has_abstention_phrase_def answer_words_of_def
      context_words_of_def overlapRatio_def Let_def)

text \<open>
  The rule at the two examples of the specification.
\<close>

theorem detect_hallucination_rule_witness:
  "detect_hallucination ''Quantum entanglement powers the engine.'' [''The cat sat on the mat.''] \<and>
   \<not> detect_hallucination ''I cannot answer this question based on the provided context.''
        [''The cat sat on the mat.'']"
proof -
  have "''Quantum entanglement powers the engine.'' \<noteq> [] \<and> [''The cat sat on the mat.''] \<noteq> [] \<and>
      \<not> has_abstention_phrase ''Quantum entanglement powers the engine.'' \<and>
      answer_words_of ''Quantum entanglement powers the engine.'' \<noteq> {} \<and>
      overlapRatio ''Quantum entanglement powers the engine.'' [''The cat sat on the mat.''] < 3 / 10"
    by code_simp
  moreover have "has_abstention_phrase ''I cannot answer this question based on the provided context.''"
    by code_simp
  ultimately show ?thesis
    using detect_hallucination_rule [of "''Quantum entanglement powers the engine.''" "[''The cat sat on the mat.'']"]
      detect_hallucination_rule [of "''I cannot answer this question based on the provided context.''" "[''The cat sat on the mat.'']"]
    by blast
qed

text \<open>
  Claim C3 as stated fails for the answer \<open>hi\<close> and the context \<open>abc\<close>: no abstention
  phrase, overlap ratio \<open>0 < 0.3\<close>, and yet the answer is not flagged.
\<close>

theorem detect_hallucination_no_words:
  "\<not> has_abstention_phrase ''hi'' \<and> overlapRatio ''hi'' [''abc''] < 3 / 10 \<and>
   \<not> detect_hallucination ''hi'' [''abc'']"
  by code_simp

section \<open>Circuit breaker\<close>

lemma state_closed: "stored_state cb = CLOSED \<Longrightarrow> state now cb = (CLOSED, cb)"
  by (simp add: state_def split: option.splits)

lemma state_half_open_stored: "stored_state cb = HALF_OPEN \<Longrightarrow> state now cb = (HALF_OPEN, cb)"
  by (simp add: state_def split: option.splits)

lemma state_reports_half_open:
  "fst (state now cb) = HALF_OPEN \<Longrightarrow>
   stored_state (snd (state now cb)) = HALF_OPEN \<and>
   failure_count (snd (state now cb)) = failure_count cb \<and>
   failure_threshold (snd (state now cb)) = failure_threshold cb"
  by (auto simp: state_def split: option.splits if_splits)

lemma call_closed_failure:
  assumes "stored_state cb = CLOSED"
  shows "call cb t1 t2 t3 (\<lambda>w. (Inl e, w)) w =
     (Inl e,
      (if failure_count cb + 1 \<ge> failure_threshold cb
       then open_circuit t3 (cb\<lparr>failure_count := failure_count cb + 1\<rparr>)
       else cb\<lparr>failure_count := failure_count cb + 1\<rparr>), w)"
  using assms by (simp add: call_def state_closed Let_def)

lemma call_open_failure:
  assumes "stored_state cb = OPEN" and "last_failure_time cb \<noteq> None"
    and "call cb t1 t2 t3 (\<lambda>w. (Inl e, w)) w = (r, cb', w')"
  shows "stored_state cb' = OPEN \<and> last_failure_time cb' \<noteq> None \<and>
         failure_threshold cb' = failure_threshold cb \<and>
         recovery_timeout cb' = recovery_timeout cb"
  using assms
  by (auto simp: call_def state_def open_circuit_def split: option.splits if_splits)

lemma failing_call_step:
  assumes "opens_within cb (Suc n)"
    and "call cb t1 t2 t3 (\<lambda>w. (Inl e, w)) w = (r, cb', w')"
  shows "(if n = 0 then stored_state cb' = OPEN \<and> last_failure_time cb' \<noteq> None
          else opens_within cb' n) \<and>
         failure_threshold cb' = failure_threshold cb \<and>
         recovery_timeout cb' = recovery_timeout cb"
proof (cases "stored_state cb = CLOSED")
  case True
  with assms show ?thesis
    by (auto simp: call_closed_failure opens_within_def open_circuit_def split: if_splits)
next
  case False
  with assms(1) have "stored_state cb = OPEN" "last_failure_time cb \<noteq> None"
    by (simp_all add: opens_within_def)
  from call_open_failure [OF this assms(2)] show ?thesis
    by (simp add: opens_within_def)
qed

lemma failing_calls_open:
  assumes "opens_within cb (length readings)"
  shows "stored_state (failing_calls cb e readings) = OPEN \<and>
         last_failure_time (failing_calls cb e readings) \<noteq> None \<and>
         failure_threshold (failing_calls cb e readings) = failure_threshold cb \<and>
         recovery_timeout (failing_calls cb e readings) = recovery_timeout cb"
  using assms
proof (induction readings arbitrary: cb)
  case Nil
  then show ?case by (simp add: opens_within_def split: if_splits)
next
  case (Cons x readings)
  obtain t1 t2 t3 where x: "x = (t1, t2, t3)" by (cases x) auto
  obtain r cb' w' where c: "call cb t1 t2 t3 (\<lambda>w. (Inl e :: error + unit, w)) () = (r, cb', w')"
    by (cases "call cb t1 t2 t3 (\<lambda>w. (Inl e :: error + unit, w)) ()") auto
  from Cons.prems have "opens_within cb (Suc (length readings))" by simp
  note step = failing_call_step [OF this c]
  show ?case
  proof (cases "readings = []")
    case True
    with step x c show ?thesis by simp
  next
    case False
    with step have "opens_within cb' (length readings)" by simp
    from Cons.IH [OF this] step x c show ?thesis by simp
  qed
qed


lemma failing_calls_below_threshold:
  assumes "stored_state cb = CLOSED"
    and "failure_count cb + int (length readings) < failure_threshold cb"
  shows "failing_calls cb e readings = cb\<lparr>failure_count := failure_count cb + int (length readings)\<rparr>"
  using assms
proof (induction readings arbitrary: cb)
  case Nil
  then show ?case by simp
next
  case (Cons t readings)
  obtain t1 t2 t3 where t: "t = (t1, t2, t3)" by (cases t) auto
  let ?cb' = "cb\<lparr>failure_count := failure_count cb + 1\<rparr>"
  from Cons.prems have step: "call cb t1 t2 t3 (\<lambda>w. (Inl e :: error + unit, w)) () = (Inl e, ?cb', ())"
    by (simp add: call_closed_failure)
  have "failing_calls ?cb' e readings =
      ?cb'\<lparr>failure_count := failure_count ?cb' + int (length readings)\<rparr>"
    using Cons.prems by (intro Cons.IH) auto
  with step t show ?case by (simp add: add.assoc)
qed

lemma failing_calls_append:
  "failing_calls cb e (xs @ ys) = failing_calls (failing_calls cb e xs) e ys"
  by (induction xs arbitrary: cb) (auto split: prod.splits)

lemma failing_calls_reach_threshold:
  assumes "0 < T" and "int (length readings) = T"
  shows "failing_calls (new_breaker T R) e readings =
     \<lparr> failure_threshold = T, recovery_timeout = R, failure_count = T,
       last_failure_time = Some (snd (snd (last readings))), stored_state = OPEN \<rparr>"
proof -
  from assms have ne: "readings \<noteq> []" by auto
  then obtain init t1 t2 t3 where readings: "readings = init @ [(t1, t2, t3)]"
    by (metis append_butlast_last_id prod_cases3)
  with assms have len: "int (length init) = T - 1" by simp
  have "failing_calls (new_breaker T R) e init =
      (new_breaker T R)\<lparr>failure_count := failure_count (new_breaker T R) + int (length init)\<rparr>"
    using len by (intro failing_calls_below_threshold) (simp_all add: new_breaker_def)
  then have init: "failing_calls (new_breaker T R) e init = (new_breaker T R)\<lparr>failure_count := T - 1\<rparr>"
    using len by (simp add: new_breaker_def)
  have "failing_calls (new_breaker T R) e readings =
      failing_calls ((new_breaker T R)\<lparr>failure_count := T - 1\<rparr>) e [(t1, t2, t3)]"
    by (simp add: readings failing_calls_append init)
  also have "\<dots> = \<lparr> failure_threshold = T, recovery_timeout = R, failure_count = T,
       last_failure_time = Some t3, stored_state = OPEN \<rparr>"
    by (simp add: call_closed_failure new_breaker_def open_circuit_def)
  finally show ?thesis by (simp add: readings)
qed

lemma call_open_rejects:
  assumes "stored_state cb = OPEN" and "last_failure_time cb = Some t"
    and "t1 - t < real_of_int (recovery_timeout cb)"
  shows "call cb t1 t2 t3 func w =
     (Inl (Exception ''Circuit breaker is OPEN - API calls temporarily disabled''), cb, w)"
  using assms by (simp add: call_def state_def)

lemma state_after_timeout:
  assumes "stored_state cb = OPEN" and "last_failure_time cb = Some t" and "t \<noteq> 0"
    and "real_of_int (recovery_timeout cb) \<le> now - t"
  shows "fst (state now cb) = HALF_OPEN"
  using assms by (simp add: state_def)

lemma call_half_open_success:
  assumes "fst (state t1 hb) = HALF_OPEN" and "func w = (Inr r, w')"
  shows "\<exists>cb'. call hb t1 t2 t3 func w = (Inr r, cb', w') \<and>
           stored_state cb' = CLOSED \<and> failure_count cb' = 0"
proof -
  obtain cb1 where s1: "state t1 hb = (HALF_OPEN, cb1)"
    using assms(1) by (cases "state t1 hb") auto
  with state_reports_half_open [OF assms(1)] have "stored_state cb1 = HALF_OPEN" by simp
  then have s2: "state t2 cb1 = (HALF_OPEN, cb1)" by (rule state_half_open_stored)
  show ?thesis using s1 s2 assms(2) by (simp add: call_def)
qed

lemma call_half_open_failure:
  assumes "fst (state t1 hb) = HALF_OPEN" and "func w = (Inl e, w')"
  shows "\<exists>cb'. call hb t1 t2 t3 func w = (Inl e, cb', w') \<and>
           stored_state cb' = OPEN \<and> last_failure_time cb' = Some t3"
proof -
  obtain cb1 where s1: "state t1 hb = (HALF_OPEN, cb1)"
    using assms(1) by (cases "state t1 hb") auto
  with state_reports_half_open [OF assms(1)] have "stored_state cb1 = HALF_OPEN" by simp
  then have s2: "state t2 cb1 = (HALF_OPEN, cb1)" by (rule state_half_open_stored)
  show ?thesis using s1 s2 assms(2) by (simp add: call_def open_circuit_def)
qed

text \<open>
  Claim C4. Take a \<open>CLOSED\<close> breaker with threshold \<open>T > 0\<close>, recovery timeout \<open>R\<close> and a
  non-negative failure counter, and \<open>T\<close> calls in a row whose operation raises. Then the
  breaker is \<open>OPEN\<close>, and with \<open>t\<close> the time of the last failure it recorded (for a new
  breaker: the time of the \<open>T\<close>-th failure)
  \<^item> a call made before \<open>R\<close> seconds have passed since \<open>t\<close> is rejected with the error, the
    same for every operation and with the world unchanged: the operation is not invoked;
  \<^item> once \<open>R\<close> seconds have passed since \<open>t\<close>, reading the property \<open>state\<close> gives
    \<open>HALF_OPEN\<close> (the clock reading \<open>t\<close> is not \<open>0.0\<close>, which the property would take for
    no time at all);
  \<^item> for any breaker that reports \<open>HALF_OPEN\<close>, a call whose operation returns leaves it
    \<open>CLOSED\<close> with \<open>failure_count = 0\<close>, and a call whose operation raises leaves it
    \<open>OPEN\<close> with the recovery timer restarted at the time of this failure.
\<close>

theorem circuit_breaker_transitions:
  fixes func :: "'w \<Rightarrow> (error + 'a) \<times> 'w"
  assumes "stored_state cb0 = CLOSED" and "0 \<le> failure_count cb0"
    and "failure_threshold cb0 = T" and "0 < T" and "recovery_timeout cb0 = R"
    and "int (length readings) = T"
    and "cb = failing_calls cb0 e readings"
  shows "stored_state cb = OPEN \<and>
     (\<exists>t. last_failure_time cb = Some t \<and>
        (cb0 = new_breaker T R \<longrightarrow> t = snd (snd (last readings))) \<and>
        (\<forall>t1 t2 t3 (func :: 'w \<Rightarrow> (error + 'a) \<times> 'w) w. t1 - t < real_of_int R \<longrightarrow>
           call cb t1 t2 t3 func w =
             (Inl (Exception ''Circuit breaker is OPEN - API calls temporarily disabled''), cb, w)) \<and>
        (\<forall>now. t \<noteq> 0 \<and> real_of_int R \<le> now - t \<longrightarrow> fst (state now cb) = HALF_OPEN)) \<and>
     (\<forall>hb t1 t2 t3 (func :: 'w \<Rightarrow> (error + 'a) \<times> 'w) w r w'.
        fst (state t1 hb) = HALF_OPEN \<and> func w = (Inr r, w') \<longrightarrow>
        (\<exists>cb'. call hb t1 t2 t3 func w = (Inr r, cb', w') \<and>
           stored_state cb' = CLOSED \<and> failure_count cb' = 0)) \<and>
     (\<forall>hb t1 t2 t3 (func :: 'w \<Rightarrow> (error + 'a) \<times> 'w) w e' w'.
        fst (state t1 hb) = HALF_OPEN \<and> func w = (Inl e', w') \<longrightarrow>
        (\<exists>cb'. call hb t1 t2 t3 func w = (Inl e', cb', w') \<and>
           stored_state cb' = OPEN \<and> last_failure_time cb' = Some t3))"
proof -
  have "opens_within cb0 (length readings)"
    using assms(1-4,6) by (auto simp: opens_within_def)
  from failing_calls_open [OF this, of e] assms(5,7)
  have a: "stored_state cb = OPEN" and ne: "last_failure_time cb \<noteq> None"
    and c: "recovery_timeout cb = R"
    by simp_all
  from ne obtain t where b: "last_failure_time cb = Some t" by auto
  have new: "cb0 = new_breaker T R \<longrightarrow> t = snd (snd (last readings))"
    using failing_calls_reach_threshold [OF assms(4,6), of R e] assms(7) b by auto
  have rej: "\<forall>t1 t2 t3 (func :: 'w \<Rightarrow> (error + 'a) \<times> 'w) w. t1 - t < real_of_int R \<longrightarrow>
        call cb t1 t2 t3 func w =
          (Inl (Exception ''Circuit breaker is OPEN - API calls temporarily disabled''), cb, w)"
  proof (intro allI impI)
    fix t1 t2 t3 :: real and func :: "'w \<Rightarrow> (error + 'a) \<times> 'w" and w :: 'w
    assume "t1 - t < real_of_int R"
    then show "call cb t1 t2 t3 func w =
        (Inl (Exception ''Circuit breaker is OPEN - API calls temporarily disabled''), cb, w)"
      using call_open_rejects [OF a b, of t1 t2 t3 func w] c by simp
  qed
  have half: "\<forall>now. t \<noteq> 0 \<and> real_of_int R \<le> now - t \<longrightarrow> fst (state now cb) = HALF_OPEN"
    using state_after_timeout [OF a b] c by simp
  have succ: "\<forall>hb t1 t2 t3 (func :: 'w \<Rightarrow> (error + 'a) \<times> 'w) w r w'.
        fst (state t1 hb) = HALF_OPEN \<and> func w = (Inr r, w') \<longrightarrow>
        (\<exists>cb'. call hb t1 t2 t3 func w = (Inr r, cb', w') \<and>
           stored_state cb' = CLOSED \<and> failure_count cb' = 0)"
    by (intro allI impI, elim conjE, rule call_half_open_success)
  have fail: "\<forall>hb t1 t2 t3 (func :: 'w \<Rightarrow> (error + 'a) \<times> 'w) w e' w'.
        fst (state t1 hb) = HALF_OPEN \<and> func w = (Inl e', w') \<longrightarrow>
        (\<exists>cb'. call hb t1 t2 t3 func w = (Inl e', cb', w') \<and>
           stored_state cb' = OPEN \<and> last_failure_time cb' = Some t3)"
    by (intro allI impI, elim conjE, rule call_half_open_failure)
  have ex: "\<exists>t. last_failure_time cb = Some t \<and>
        (cb0 = new_breaker T R \<longrightarrow> t = snd (snd (last readings))) \<and>
        (\<forall>t1 t2 t3 (func :: 'w \<Rightarrow> (error + 'a) \<times> 'w) w. t1 - t < real_of_int R \<longrightarrow>
           call cb t1 t2 t3 func w =
             (Inl (Exception ''Circuit breaker is OPEN - API calls temporarily disabled''), cb, w)) \<and>
        (\<forall>now. t \<noteq> 0 \<and> real_of_int R \<le> now - t \<longrightarrow> fst (state now cb) = HALF_OPEN)"
    by (rule exI [of _ t], rule conjI [OF b conjI [OF new conjI [OF rej half]]])
  show ?thesis
    by (rule conjI [OF a conjI [OF ex conjI [OF succ fail]]])
qed

text \<open>
  The theorem at a new breaker with threshold 2 and timeout 60, and failures at the times 1
  and 2.
\<close>

theorem circuit_breaker_transitions_witness:
  "stored_state (new_breaker 2 60) = CLOSED \<and> 0 \<le> failure_count (new_breaker 2 60) \<and>
   failure_threshold (new_breaker 2 60) = 2 \<and> (0::int) < 2 \<and>
   recovery_timeout (new_breaker 2 60) = 60 \<and>
   int (length [(1::real, 1::real, 1::real), (2, 2, 2)]) = 2 \<and>
   stored_state (failing_calls (new_breaker 2 60) Timeout [(1, 1, 1), (2, 2, 2)]) = OPEN \<and>
   call (failing_calls (new_breaker 2 60) Timeout [(1, 1, 1), (2, 2, 2)]) 10 10 10
        (\<lambda>w. (Inr ''answer'', Suc w)) (0::nat) =
     (Inl (Exception ''Circuit breaker is OPEN - API calls temporarily disabled''),
      failing_calls (new_breaker 2 60) Timeout [(1, 1, 1), (2, 2, 2)], 0) \<and>
   fst (state 62 (failing_calls (new_breaker 2 60) Timeout [(1, 1, 1), (2, 2, 2)])) = HALF_OPEN \<and>
   (\<exists>cb'. call (failing_calls (new_breaker 2 60) Timeout [(1, 1, 1), (2, 2, 2)]) 62 62 63
            (\<lambda>w. (Inr ''answer'', Suc w)) (0::nat) = (Inr ''answer'', cb', 1) \<and>
          stored_state cb' = CLOSED \<and> failure_count cb' = 0) \<and>
   (\<exists>cb'. call (failing_calls (new_breaker 2 60) Timeout [(1, 1, 1), (2, 2, 2)]) 62 62 63
            (\<lambda>w. (Inl Timeout :: error + string, Suc w)) (0::nat) = (Inl Timeout, cb', 1) \<and>
          stored_state cb' = OPEN \<and> last_failure_time cb' = Some 63)"
proof -
  let ?cb = "failing_calls (new_breaker 2 60) Timeout [(1, 1, 1), (2, 2, 2)]"
  have h1: "stored_state (new_breaker 2 60) = CLOSED" by (simp add: new_breaker_def)
  have h2: "0 \<le> failure_count (new_breaker 2 60)" by (simp add: new_breaker_def)
  have h3: "failure_threshold (new_breaker 2 60) = 2" by (simp add: new_breaker_def)
  have h4: "(0::int) < 2" by simp
  have h5: "recovery_timeout (new_breaker 2 60) = 60" by (simp add: new_breaker_def)
  have h6: "int (length [(1::real, 1::real, 1::real), (2, 2, 2)]) = 2" by simp
  note inst = circuit_breaker_transitions [where 'w = nat and 'a = string,
      OF h1 h2 h3 h4 h5 h6 refl, of Timeout]
  have open': "stored_state ?cb = OPEN" by (rule inst [THEN conjunct1])
  from inst [THEN conjunct2, THEN conjunct1] obtain t where
    t: "new_breaker 2 60 = new_breaker 2 60 \<longrightarrow> t = snd (snd (last [(1::real, 1::real, 1::real), (2, 2, 2)]))"
    and rej0: "\<forall>t1 t2 t3 (func :: nat \<Rightarrow> (error + string) \<times> nat) w. t1 - t < real_of_int 60 \<longrightarrow>
           call ?cb t1 t2 t3 func w =
             (Inl (Exception ''Circuit breaker is OPEN - API calls temporarily disabled''), ?cb, w)"
    and half0: "\<forall>now. t \<noteq> 0 \<and> real_of_int 60 \<le> now - t \<longrightarrow> fst (state now ?cb) = HALF_OPEN"
    by (elim exE conjE)
  from t have t2: "t = 2" by simp
  have rej: "call ?cb 10 10 10 (\<lambda>w. (Inr ''answer'', Suc w)) (0::nat) =
      (Inl (Exception ''Circuit breaker is OPEN - API calls temporarily disabled''), ?cb, 0)"
    by (rule rej0 [rule_format]) (simp add: t2)
  have half: "fst (state 62 ?cb) = HALF_OPEN"
    by (rule half0 [rule_format]) (simp add: t2)
  note p5 = inst [THEN conjunct2, THEN conjunct2, THEN conjunct1, rule_format]
  note p6 = inst [THEN conjunct2, THEN conjunct2, THEN conjunct2, rule_format]
  have succ: "\<exists>cb'. call ?cb 62 62 63 (\<lambda>w. (Inr ''answer'', Suc w)) (0::nat) = (Inr ''answer'', cb', 1) \<and>
          stored_state cb' = CLOSED \<and> failure_count cb' = 0"
    by (rule p5, rule conjI, rule half, simp)
  have fail: "\<exists>cb'. call ?cb 62 62 63 (\<lambda>w. (Inl Timeout :: error + string, Suc w)) (0::nat) =
             (Inl Timeout, cb', 1) \<and>
          stored_state cb' = OPEN \<and> last_failure_time cb' = Some 63"
    by (rule p6, rule conjI, rule half, simp)
  from h1 h2 h3 h4 h5 h6 open' rej half succ fail show ?thesis by (intro conjI)
qed

section \<open>Gateway requests\<close>

lemma handle_exception_returns:
  "handle_exception M attempt e =
     (if int attempt = M - 1 then Inr (Return None) else Inr Continue)"
  by (cases e) (simp_all add: handle_exception_def)

lemma attempt_step_never_raises: "\<exists>s. attempt_step M attempt outcome = Inr s"
  by (cases "try_body M attempt outcome")
     (simp_all add: attempt_step_def handle_exception_returns)

lemma request_loop_never_raises:
  "\<exists>r posts'. request_loop M http prompt attempt posts = (Inr r, posts')"
proof (induction M http prompt attempt posts rule: request_loop.induct)
  case (1 M http prompt attempt posts)
  show ?case
  proof (cases "int attempt < M")
    case False
    then show ?thesis by (simp add: request_loop.simps)
  next
    case True
    obtain s where s: "attempt_step M attempt (http posts prompt) = Inr s"
      using attempt_step_never_raises by blast
    show ?thesis
    proof (cases s)
      case (Return r)
      with True s show ?thesis by (simp add: request_loop.simps [of M http prompt attempt posts])
    next
      case Continue
      with True s "1.IH" show ?thesis
        by (simp add: request_loop.simps [of M http prompt attempt posts])
    qed
  qed
qed

lemma attempt_step_503:
  "attempt_step M attempt (Response 503 body) =
     (if int attempt < M - 1 then Inr Continue else Inr (Return None))"
  by (simp add: attempt_step_def try_body_def)

lemma request_loop_all_503:
  assumes "\<forall>k. posts \<le> k \<and> int k < int posts + (M - int attempt) \<longrightarrow>
             (\<exists>body. http k prompt = Response 503 body)"
    and "int attempt \<le> M"
  shows "request_loop M http prompt attempt posts = (Inr None, posts + nat (M - int attempt))"
  using assms
proof (induction M http prompt attempt posts rule: request_loop.induct)
  case (1 M http prompt attempt posts)
  show ?case
  proof (cases "int attempt < M")
    case False
    with "1.prems" have "int attempt = M" by simp
    then show ?thesis by (simp add: request_loop.simps [of M http prompt attempt posts])
  next
    case True
    with "1.prems"(1) obtain body where body: "http posts prompt = Response 503 body"
      by (metis diff_gt_0_iff_gt le_refl less_add_same_cancel1)
    show ?thesis
    proof (cases "int attempt < M - 1")
      case False
      with True have "M - int attempt = 1" by simp
      with True False body show ?thesis
        by (simp add: request_loop.simps [of M http prompt attempt posts] attempt_step_503)
    next
      case less: True
      have step: "attempt_step M attempt (http posts prompt) = Inr Continue"
        using less body by (simp add: attempt_step_503)
      have "request_loop M http prompt (Suc attempt) (Suc posts) =
          (Inr None, Suc posts + nat (M - int (Suc attempt)))"
      proof (rule "1.IH" [OF True step])
        show "\<forall>k. Suc posts \<le> k \<and> int k < int (Suc posts) + (M - int (Suc attempt)) \<longrightarrow>
            (\<exists>body. http k prompt = Response 503 body)"
          using "1.prems"(1) by auto
        show "int (Suc attempt) \<le> M" using True by simp
      qed simp_all
      moreover have "Suc posts + nat (M - int (Suc attempt)) = posts + nat (M - int attempt)"
        using True by simp
      ultimately show ?thesis
        using True step by (simp add: request_loop.simps [of M http prompt attempt posts])
    qed
  qed
qed

text \<open>
  Claim C5: with a non-negative \<open>MAX_RETRIES\<close>, if every POST of one \<open>_make_request\<close>
  call answers with status 503, the call returns \<open>None\<close> without raising, having posted
  exactly \<open>MAX_RETRIES\<close> times.
\<close>

theorem make_request_all_503:
  assumes "0 \<le> M"
    and "\<forall>k. posts \<le> k \<and> k < posts + nat M \<longrightarrow> (\<exists>body. http k prompt = Response 503 body)"
  shows "make_request M http prompt posts = (Inr None, posts + nat M)"
proof -
  have "\<forall>k. posts \<le> k \<and> int k < int posts + (M - int 0) \<longrightarrow>
             (\<exists>body. http k prompt = Response 503 body)"
    using assms by auto
  from request_loop_all_503 [of posts M 0 http prompt, OF this] assms(1) show ?thesis
    by (simp add: make_request_def)
qed

text \<open>
  The theorem at \<open>MAX_RETRIES = 3\<close>, with seven POSTs made before the call.
\<close>

theorem make_request_all_503_witness:
  "(0::int) \<le> 3 \<and>
   make_request 3 (\<lambda>k p. Response 503 NoChoices) ''prompt'' 7 = (Inr None, 10)"
proof -
  have h1: "(0::int) \<le> 3" by simp
  have h2: "\<forall>k. 7 \<le> k \<and> k < 7 + nat 3 \<longrightarrow>
      (\<exists>body. (\<lambda>k p. Response 503 NoChoices) k ''prompt'' = Response 503 body)"
    by simp
  from make_request_all_503 [OF h1 h2] h1 show ?thesis by simp
qed

section \<open>The breaker behind \<open>send_request\<close>\<close>

lemma call_closed_success:
  assumes "stored_state cb = CLOSED" and "func w = (Inr r, w')"
  shows "call cb t1 t2 t3 func w = (Inr r, cb, w')"
  using assms by (simp add: call_def state_closed)

lemma send_request_keeps_breaker:
  assumes "stored_state (circuit_breaker client) = CLOSED"
  shows "\<exists>r posts'. send_request client http t1 t2 t3 prompt posts = (r, client, posts')"
proof -
  obtain r posts' where res: "make_request (MAX_RETRIES client) http prompt posts = (Inr r, posts')"
    using request_loop_never_raises [of "MAX_RETRIES client" http prompt 0 posts]
    unfolding make_request_def by blast
  have "call (circuit_breaker client) t1 t2 t3 (make_request (MAX_RETRIES client) http prompt) posts =
      (Inr r, circuit_breaker client, posts')"
    using assms res by (rule call_closed_success)
  then show ?thesis
    by (simp add: send_request_def)
qed

lemma send_requests_keep_breaker:
  assumes "stored_state (circuit_breaker client) = CLOSED"
  shows "fst (snd (send_requests client http reqs posts)) = client"
  using assms
proof (induction reqs arbitrary: posts)
  case Nil
  then show ?case by simp
next
  case (Cons req reqs)
  obtain prompt t1 t2 t3 where req: "req = (prompt, t1, t2, t3)" by (cases req) auto
  obtain r posts' where "send_request client http t1 t2 t3 prompt posts = (r, client, posts')"
    using send_request_keeps_breaker [OF Cons.prems] by blast
  moreover have "fst (snd (send_requests client http reqs posts')) = client"
    by (rule Cons.IH [OF Cons.prems])
  ultimately show ?case
    by (cases "send_requests client http reqs posts'") (simp add: req)
qed

text \<open>
  Claim C10: whatever the outcomes of the POSTs, \<open>_make_request\<close> returns a value and does
  not raise; so after any run of \<open>send_request\<close> calls on a new client the breaker is as
  \<open>__init__\<close> left it: \<open>CLOSED\<close>, with \<open>failure_count = 0\<close>.
\<close>

theorem make_request_never_trips_breaker:
  "(\<exists>r posts'. make_request M http prompt posts = (Inr r, posts')) \<and>
   circuit_breaker (fst (snd (send_requests (new_client M) http reqs posts))) =
     new_breaker (M + 2) 60 \<and>
   failure_count (circuit_breaker (fst (snd (send_requests (new_client M) http reqs posts)))) = 0 \<and>
   stored_state (circuit_breaker (fst (snd (send_requests (new_client M) http reqs posts)))) = CLOSED"
proof -
  have "stored_state (circuit_breaker (new_client M)) = CLOSED"
    by (simp add: new_client_def new_breaker_def)
  then have "fst (snd (send_requests (new_client M) http reqs posts)) = new_client M"
    by (rule send_requests_keep_breaker)
  then show ?thesis
    using request_loop_never_raises [of M http prompt 0 posts]
    by (simp add: make_request_def new_client_def new_breaker_def)
qed

section \<open>Ingestion resume\<close>

lemma process_urls_step:
  "process_urls extract ((i, entry) # rest) st w =
     process_urls extract rest
       (let st2 = record_result (url entry) (fst (extract (url entry) w)) st
        in if (i + 1) mod 10 = 0 then save_progress st2 else st2)
       (snd (extract (url entry) w))"
  by (simp add: Let_def split: prod.splits)

lemma process_urls_done: "process_urls extract [] st w = (st, w)"
  by simp

lemma process_urls_cong:
  assumes "\<forall>x \<in> set xs. extract' (url (snd x)) = extract (url (snd x))"
  shows "process_urls extract' xs st w = process_urls extract xs st w"
  using assms
proof (induction xs arbitrary: st w)
  case Nil
  then show ?case by simp
next
  case (Cons x xs)
  obtain i entry where x: "x = (i, entry)" by (cases x) auto
  from Cons.prems have e: "extract' (url entry) = extract (url entry)"
    and rest: "\<forall>x \<in> set xs. extract' (url (snd x)) = extract (url (snd x))"
    by (simp_all add: x)
  show ?case
    unfolding x process_urls_step e by (rule Cons.IH [OF rest])
qed

lemma snd_enumerate_in: "x \<in> set (enumerate n xs) \<Longrightarrow> snd x \<in> set xs"
  by (cases x) (auto simp: enumerate_eq_zip dest: set_zip_rightD)

lemma run_resume_independent:
  assumes "\<forall>u. u \<notin> set (saved_processed_urls (load_progress checkpoint_file)) \<longrightarrow>
             extract' u = extract u"
  shows "run_ingestion_pipeline extract' entries True checkpoint_file w =
         run_ingestion_pipeline extract entries True checkpoint_file w"
proof -
  let ?todo = "filter (\<lambda>entry. url entry \<notin> set (saved_processed_urls (load_progress checkpoint_file)))
                 entries"
  have "\<forall>x \<in> set (enumerate 0 ?todo). extract' (url (snd x)) = extract (url (snd x))"
    using assms by (auto dest!: snd_enumerate_in)
  then have "process_urls extract' (enumerate 0 ?todo) st w =
             process_urls extract (enumerate 0 ?todo) st w" for st
    by (rule process_urls_cong)
  then show ?thesis
    by (simp add: run_ingestion_pipeline_def Let_def)
qed

lemma run_resume_three:
  assumes "map url sitemap_urls = [A, B, C]"
    and "A \<in> set (saved_processed_urls progress)"
    and "B \<in> set (saved_processed_urls progress)"
    and "C \<notin> set (saved_processed_urls progress)"
  shows "run_ingestion_pipeline extract sitemap_urls True (Some progress) w =
     (save_progress
        (record_result C (fst (extract C w))
           \<lparr> all_chunks = [], newly_processed_urls = [],
             processed_urls = saved_processed_urls progress,
             failed_urls = saved_failed_urls progress,
             checkpoint = Some progress \<rparr>),
      snd (extract C w))"
proof -
  from assms(1) obtain a b c where sm: "sitemap_urls = [a, b, c]"
    and u: "url a = A" "url b = B" "url c = C"
    by (auto simp: map_eq_Cons_conv)
  have todo: "filter (\<lambda>entry. url entry \<notin> set (saved_processed_urls progress)) sitemap_urls = [c]"
    using assms(2-4) by (simp add: sm u)
  show ?thesis
    by (simp add: run_ingestion_pipeline_def load_progress_def todo enumerate_simps
        process_urls_step process_urls_done u Let_def del: process_urls.simps)
qed


text \<open>
  Claim C7: in a run with \<open>resume = True\<close>, when the sitemap lists the URLs \<open>A\<close>, \<open>B\<close>, \<open>C\<close>
  and the checkpoint's \<open>processed_urls\<close> has \<open>A\<close> and \<open>B\<close> but not \<open>C\<close>, the run is one
  extraction of \<open>C\<close> and nothing else: the world it leaves is the one that extracting \<open>C\<close>
  leaves, and its state is what the result of that extraction gives from the checkpoint,
  so the chunks are those of \<open>C\<close>. And for every sitemap, a URL of the checkpoint's
  \<open>processed_urls\<close> is never extracted: the run is the same whatever extraction would do on
  those URLs.
\<close>

theorem resume_extracts_only_unprocessed:
  assumes "map url sitemap_urls = [A, B, C]"
    and "A \<in> set (saved_processed_urls progress)"
    and "B \<in> set (saved_processed_urls progress)"
    and "C \<notin> set (saved_processed_urls progress)"
  shows "run_ingestion_pipeline extract sitemap_urls True (Some progress) w =
       (save_progress
          (record_result C (fst (extract C w))
             \<lparr> all_chunks = [], newly_processed_urls = [],
               processed_urls = saved_processed_urls progress,
               failed_urls = saved_failed_urls progress,
               checkpoint = Some progress \<rparr>),
        snd (extract C w)) \<and>
     all_chunks (fst (run_ingestion_pipeline extract sitemap_urls True (Some progress) w)) =
       (case fst (extract C w) of Inr (Some chunks) \<Rightarrow> chunks | _ \<Rightarrow> []) \<and>
     (\<forall>extract' entries w'.
        (\<forall>u. u \<notin> set (saved_processed_urls progress) \<longrightarrow> extract' u = extract u) \<longrightarrow>
        run_ingestion_pipeline extract' entries True (Some progress) w' =
        run_ingestion_pipeline extract entries True (Some progress) w')"
proof -
  note whole = run_resume_three [OF assms, of "extract" w]
  have chunks: "all_chunks (fst (run_ingestion_pipeline extract sitemap_urls True (Some progress) w)) =
       (case fst (extract C w) of Inr (Some chunks) \<Rightarrow> chunks | _ \<Rightarrow> [])"
    by (simp add: whole save_progress_def record_result_def split: sum.splits option.splits)
  have indep: "\<forall>extract' entries w'.
        (\<forall>u. u \<notin> set (saved_processed_urls progress) \<longrightarrow> extract' u = extract u) \<longrightarrow>
        run_ingestion_pipeline extract' entries True (Some progress) w' =
        run_ingestion_pipeline extract entries True (Some progress) w'"
  proof (intro allI impI)
    fix extract' :: "string \<Rightarrow> 'a \<Rightarrow> (error + ContentChunk list option) \<times> 'a"
      and entries :: "url_data list" and w' :: 'a
    assume "\<forall>u. u \<notin> set (saved_processed_urls progress) \<longrightarrow> extract' u = extract u"
    then show "run_ingestion_pipeline extract' entries True (Some progress) w' =
        run_ingestion_pipeline extract entries True (Some progress) w'"
      by (intro run_resume_independent) (simp add: load_progress_def)
  qed
  show ?thesis by (rule conjI [OF whole conjI [OF chunks indep]])
qed

text \<open>
  The theorem at the URLs \<open>A\<close>, \<open>B\<close>, \<open>C\<close>, where the world is the list of the URLs fetched
  so far and no extraction finds content.
\<close>

theorem resume_extracts_only_unprocessed_witness:
  "map url [\<lparr>url = ''A'', last_modified = None, change_frequency = None, priority = None\<rparr>,
            \<lparr>url = ''B'', last_modified = None, change_frequency = None, priority = None\<rparr>,
            \<lparr>url = ''C'', last_modified = None, change_frequency = None, priority = None\<rparr>] =
     [''A'', ''B'', ''C''] \<and>
   ''A'' \<in> set (saved_processed_urls \<lparr>saved_processed_urls = [''A'', ''B''], saved_failed_urls = []\<rparr>) \<and>
   ''B'' \<in> set (saved_processed_urls \<lparr>saved_processed_urls = [''A'', ''B''], saved_failed_urls = []\<rparr>) \<and>
   ''C'' \<notin> set (saved_processed_urls \<lparr>saved_processed_urls = [''A'', ''B''], saved_failed_urls = []\<rparr>) \<and>
   run_ingestion_pipeline (\<lambda>u fetched. (Inr None, fetched @ [u]))
      [\<lparr>url = ''A'', last_modified = None, change_frequency = None, priority = None\<rparr>,
       \<lparr>url = ''B'', last_modified = None, change_frequency = None, priority = None\<rparr>,
       \<lparr>url = ''C'', last_modified = None, change_frequency = None, priority = None\<rparr>]
      True (Some \<lparr>saved_processed_urls = [''A'', ''B''], saved_failed_urls = []\<rparr>) [] =
     (\<lparr> all_chunks = [], newly_processed_urls = [], processed_urls = [''A'', ''B''],
        failed_urls = [''C''],
        checkpoint = Some \<lparr>saved_processed_urls = [''A'', ''B''], saved_failed_urls = [''C'']\<rparr> \<rparr>,
      [''C''])"
proof -
  let ?sitemap = "[\<lparr>url = ''A'', last_modified = None, change_frequency = None, priority = None\<rparr>,
       \<lparr>url = ''B'', last_modified = None, change_frequency = None, priority = None\<rparr>,
       \<lparr>url = ''C'', last_modified = None, change_frequency = None, priority = None\<rparr>]"
  let ?progress = "\<lparr>saved_processed_urls = [''A'', ''B''], saved_failed_urls = []\<rparr>"
  have h1: "map url ?sitemap = [''A'', ''B'', ''C'']" by simp
  have h2: "''A'' \<in> set (saved_processed_urls ?progress)" by simp
  have h3: "''B'' \<in> set (saved_processed_urls ?progress)" by simp
  have h4: "''C'' \<notin> set (saved_processed_urls ?progress)" by simp
  note inst = resume_extracts_only_unprocessed [OF h1 h2 h3 h4,
      of "\<lambda>u fetched. (Inr None, fetched @ [u])" "[]", THEN conjunct1]
  have "run_ingestion_pipeline (\<lambda>u fetched. (Inr None, fetched @ [u])) ?sitemap True
      (Some ?progress) [] =
     (\<lparr> all_chunks = [], newly_processed_urls = [], processed_urls = [''A'', ''B''],
        failed_urls = [''C''],
        checkpoint = Some \<lparr>saved_processed_urls = [''A'', ''B''], saved_failed_urls = [''C'']\<rparr> \<rparr>,
      [''C''])"
    unfolding inst by (simp add: save_progress_def record_result_def)
  with h1 h2 h3 h4 show ?thesis by (intro conjI)
qed

end
